theory Spec2Isabelle
  imports Main
begin

section \<open>JavaScript values\<close>

text \<open>
  A value of TypeScript type \<open>T | null | undefined\<close>. The test \<open>value != null\<close> of the
  sources is true exactly for \<open>Val\<close>.
\<close>

datatype 'a jsval = Undefined | Null | Val 'a

fun is_present :: "'a jsval \<Rightarrow> bool" where
  "is_present (Val _) = True"
| "is_present _ = False"

text \<open>
  \<open>lazyValue\<close> of the external package \<open>@proc7ts/primitives\<close>: a cell that runs its
  provider on the first call and hands out the stored result afterwards.
\<close>

datatype 'a lazy = Unevaluated | Evaluated 'a

section \<open>Single-valued entries: \<open>cxSingle\<close>\<close>

text \<open>
  An asset evaluator (\<open>CxAsset.Evaluator\<close>) is a function without arguments that returns
  the asset, \<open>null\<close> or \<open>undefined\<close>. It is modelled by the value it returns; evaluators
  that throw are outside the model. \<open>target.eachAsset\<close> hands the evaluators to the callback
  in the order the assets were provided, so the array \<open>assets\<close> built by the callback is the
  list of evaluators in registration order; it is the parameter \<open>assets\<close> below.

  The loop \<open>for (let i = assets.length - 1; i >= 0; --i)\<close>. The second argument is
  \<open>i + 1\<close>, the third one the variable \<open>value\<close>. The last argument is a ghost counter: how
  often each evaluator has been invoked.
\<close>

fun cxSingle_loop :: "'a jsval list \<Rightarrow> nat \<Rightarrow> 'a jsval \<Rightarrow> nat list \<Rightarrow> 'a jsval \<times> nat list" where
  "cxSingle_loop assets 0 value calls = (value, calls)"
| "cxSingle_loop assets (Suc i) value calls =
     (let value' = assets ! i;
          calls' = calls[i := Suc (calls ! i)]
      in if is_present value' then (value', calls')
         else cxSingle_loop assets i value' calls')"

text \<open>The provider handed to \<open>lazyValue\<close>: \<open>let value\<close> starts as \<open>undefined\<close>.\<close>

definition cxSingle_compute :: "'a jsval list \<Rightarrow> 'a jsval \<times> nat list" where
  "cxSingle_compute assets =
     cxSingle_loop assets (length assets) Undefined (replicate (length assets) 0)"

text \<open>
  The definition object returned by the definer: the two \<open>lazyValue\<close> cells, and two ghost
  fields counting the runs of the provider of \<open>get\<close> and the invocations of each evaluator.
  \<open>getDefault_cell\<close> is \<open>None\<close> when no \<open>byDefault\<close> was given
  (\<open>byDefault && lazyValue(...)\<close>).
\<close>

record 'a cxSingle_definition =
  get_cell :: "'a jsval lazy"
  getDefault_cell :: "'a jsval lazy option"
  get_runs :: nat
  eval_calls :: "nat list"

definition cxSingle :: "'a jsval option \<Rightarrow> 'a cxSingle_definition" where
  "cxSingle byDefault =
     \<lparr>get_cell = Unevaluated,
      getDefault_cell = (case byDefault of None \<Rightarrow> None | Some _ \<Rightarrow> Some Unevaluated),
      get_runs = 0,
      eval_calls = []\<rparr>"

text \<open>
  \<open>definition.get()\<close>, called while the target offers the evaluators \<open>assets\<close>.
\<close>

definition cxSingle_get ::
  "'a jsval list \<Rightarrow> 'a cxSingle_definition \<Rightarrow> 'a jsval \<times> 'a cxSingle_definition" where
  "cxSingle_get assets d =
     (case get_cell d of
        Evaluated v \<Rightarrow> (v, d)
      | Unevaluated \<Rightarrow>
          (let (v, calls) = cxSingle_compute assets
           in (v, d\<lparr>get_cell := Evaluated v,
                     get_runs := Suc (get_runs d),
                     eval_calls := calls\<rparr>)))"

text \<open>
  \<open>definition.getDefault\<close>: \<open>None\<close> when the method is not defined, otherwise the result of
  \<open>byDefault(target)\<close>, which the cell keeps.
\<close>

definition cxSingle_getDefault ::
  "'a jsval option \<Rightarrow> 'a cxSingle_definition \<Rightarrow> 'a jsval option \<times> 'a cxSingle_definition" where
  "cxSingle_getDefault byDefault d =
     (case getDefault_cell d of
        None \<Rightarrow> (None, d)
      | Some (Evaluated v) \<Rightarrow> (Some v, d)
      | Some Unevaluated \<Rightarrow>
          (case byDefault of
             None \<Rightarrow> (None, d)
           | Some v \<Rightarrow> (Some v, d\<lparr>getDefault_cell := Some (Evaluated v)\<rparr>)))"

text \<open>A series of \<open>get()\<close> calls; each call sees the evaluators the target offers then.\<close>

fun cxSingle_gets ::
  "'a jsval list list \<Rightarrow> 'a cxSingle_definition \<Rightarrow> 'a jsval list \<times> 'a cxSingle_definition" where
  "cxSingle_gets [] d = ([], d)"
| "cxSingle_gets (assets # rest) d =
     (let (v, d') = cxSingle_get assets d;
          (vs, d'') = cxSingle_gets rest d'
      in (v # vs, d''))"

section \<open>The registry of assets\<close>

text \<open>
  A context entry asset (\<open>CxAsset\<close>). Its placement function (\<open>placeAsset\<close>, \<open>each\<close> in
  the older revision) is modelled by the sequence of arguments it passes to the collector.
\<close>

record 'a cx_asset =
  placeAsset :: "'a jsval list"

text \<open>
  \<open>cxConstAsset(entry, value)\<close>: \<open>collector(value)\<close> when \<open>value != null\<close>, and
  \<open>CxAsset$provideNone\<close>, which ignores the collector, otherwise.
\<close>

definition CxAsset_provideNone :: "'a jsval list" where
  "CxAsset_provideNone = []"

definition cxConstAsset :: "'a jsval \<Rightarrow> 'a cx_asset" where
  "cxConstAsset value =
     \<lparr>placeAsset = (if is_present value then [value] else CxAsset_provideNone)\<rparr>"

text \<open>
  Modelled from the spec: the modifier (registry) of the entry API, whose implementation is
  not among the sources. It keeps, for one entry, the provided assets in registration
  order; \<open>provide\<close> appends an asset and returns its supply (here the number of the
  supply); cutting the supply off removes exactly that asset. \<open>target.eachAsset\<close> passes
  on what the placement functions of the registered assets hand to the collector, in
  registration order.
\<close>

record 'a registry =
  next_supply :: nat
  bucket :: "(nat \<times> 'a cx_asset) list"

definition empty_registry :: "'a registry" where
  "empty_registry = \<lparr>next_supply = 0, bucket = []\<rparr>"

definition provide :: "'a cx_asset \<Rightarrow> 'a registry \<Rightarrow> nat \<times> 'a registry" where
  "provide a r =
     (next_supply r,
      r\<lparr>next_supply := Suc (next_supply r), bucket := bucket r @ [(next_supply r, a)]\<rparr>)"

definition supply_off :: "nat \<Rightarrow> 'a registry \<Rightarrow> 'a registry" where
  "supply_off s r = r\<lparr>bucket := filter (\<lambda>(s', a). s' \<noteq> s) (bucket r)\<rparr>"

definition target_eachAsset :: "'a registry \<Rightarrow> 'a jsval list" where
  "target_eachAsset r = concat (map (\<lambda>(s, a). placeAsset a) (bucket r))"

text \<open>Resolution of a single-valued entry in a fresh scope over the registry.\<close>

definition resolve_single :: "'a registry \<Rightarrow> 'a jsval" where
  "resolve_single r = fst (cxSingle_get (target_eachAsset r) (cxSingle None))"

section \<open>The key API: \<open>IterativeContextSeeder\<close> and \<open>iterativeSeed\<close>\<close>

text \<open>
  \<open>Array.prototype.indexOf\<close> compares with \<open>===\<close>; for providers, which are functions,
  this is identity of reference. A provider is therefore a reference of type \<open>'p\<close>, and HOL
  equality on \<open>'p\<close> stands for \<open>===\<close>. \<open>None\<close> is the result \<open>-1\<close>.
\<close>

fun indexOf :: "'p list \<Rightarrow> 'p \<Rightarrow> nat option" where
  "indexOf [] p = None"
| "indexOf (x # xs) p = (if x = p then Some 0 else map_option Suc (indexOf xs p))"

text \<open>\<open>array.splice(found, 1)\<close> for an index inside the array.\<close>

definition splice1 :: "nat \<Rightarrow> 'p list \<Rightarrow> 'p list" where
  "splice1 found xs = take found xs @ drop (Suc found) xs"

text \<open>
  \<open>IterativeContextSeeder.provide\<close>: the state is the array \<open>_providers\<close>. The method
  pushes the provider and returns a closure over \<open>provider\<close>; \<open>seeder_remove provider\<close> is
  one invocation of that closure.
\<close>

definition seeder_provide :: "'p \<Rightarrow> 'p list \<Rightarrow> 'p list" where
  "seeder_provide provider providers = providers @ [provider]"

definition seeder_remove :: "'p \<Rightarrow> 'p list \<Rightarrow> 'p list" where
  "seeder_remove provider providers =
     (case indexOf providers provider of
        Some found \<Rightarrow> splice1 found providers
      | None \<Rightarrow> providers)"

text \<open>
  A function of the program need not be pure: what it returns may differ from one
  invocation to the next. Such a function is modelled by \<open>f\<close>, where \<open>f x k\<close> is what
  invocation number \<open>k\<close> (counted from 0) returns for the argument \<open>x\<close>. \<open>invoke\<close> is the
  one way to run it: it takes the number of invocations made so far and returns the result
  together with the new number.
\<close>

definition invoke :: "('x \<Rightarrow> nat \<Rightarrow> 'r) \<Rightarrow> 'x \<Rightarrow> nat \<Rightarrow> 'r \<times> nat" where
  "invoke f x calls = (f x calls, Suc calls)"

text \<open>
  \<open>SourceEntry\<close>, the tuple \<open>[provider, source?]\<close>: \<open>se_source = None\<close> is the tuple of
  length 1. \<open>se_calls\<close> is the number of invocations of \<open>entry[0]\<close> made so far.
\<close>

record ('ctx, 'src) source_entry =
  se_provider :: "'ctx \<Rightarrow> nat \<Rightarrow> 'src jsval"
  se_source :: "'src jsval option"
  se_calls :: nat

text \<open>The function mapped over the entries: the cached source if there is one.\<close>

definition seed_map ::
  "'ctx \<Rightarrow> ('ctx, 'src) source_entry \<Rightarrow> 'src jsval \<times> ('ctx, 'src) source_entry" where
  "seed_map context entry =
     (case se_source entry of
        Some cached \<Rightarrow> (cached, entry)
      | None \<Rightarrow>
          (let (source, calls) = invoke (se_provider entry) context (se_calls entry)
           in (source, entry\<lparr>se_source := Some source, se_calls := calls\<rparr>)))"

text \<open>
  \<open>iterativeSeed(context, providers)\<close> builds the entries at once
  (\<open>providers.map(provider => [provider])\<close>); \<open>map\<close> and \<open>filter(isPresent)\<close> of the
  iterable are lazy and run while a consumer iterates.
\<close>

definition iterativeSeed ::
  "('ctx \<Rightarrow> nat \<Rightarrow> 'src jsval) list \<Rightarrow> ('ctx, 'src) source_entry list" where
  "iterativeSeed providers =
     map (\<lambda>provider. \<lparr>se_provider = provider, se_source = None, se_calls = 0\<rparr>) providers"

text \<open>
  One iteration by a consumer that asks for at most \<open>n\<close> elements (\<open>itsEmpty\<close> asks for
  one): the entries are visited in order, each mapped, and only present sources are handed
  over.
\<close>

fun seed_take ::
  "nat \<Rightarrow> 'ctx \<Rightarrow> ('ctx, 'src) source_entry list \<Rightarrow> 'src list \<times> ('ctx, 'src) source_entry list" where
  "seed_take 0 context entries = ([], entries)"
| "seed_take (Suc n) context [] = ([], [])"
| "seed_take (Suc n) context (entry # entries) =
     (let (source, entry') = seed_map context entry
      in case source of
           Val v \<Rightarrow> (let (vs, entries') = seed_take n context entries in (v # vs, entry' # entries'))
         | _ \<Rightarrow> (let (vs, entries') = seed_take (Suc n) context entries in (vs, entry' # entries')))"

text \<open>A complete iteration.\<close>

definition seed_iterate ::
  "'ctx \<Rightarrow> ('ctx, 'src) source_entry list \<Rightarrow> 'src list \<times> ('ctx, 'src) source_entry list" where
  "seed_iterate context entries = seed_take (length entries) context entries"

text \<open>Several iterations of the same seed, one after the other.\<close>

fun seed_takes ::
  "nat list \<Rightarrow> 'ctx \<Rightarrow> ('ctx, 'src) source_entry list \<Rightarrow> 'src list list \<times> ('ctx, 'src) source_entry list" where
  "seed_takes [] context entries = ([], entries)"
| "seed_takes (n # ns) context entries =
     (let (vs, entries') = seed_take n context entries;
          (vss, entries'') = seed_takes ns context entries'
      in (vs # vss, entries''))"

text \<open>The present values of a list, in order (\<open>filter(isPresent)\<close>).\<close>

fun present_values :: "'a jsval list \<Rightarrow> 'a list" where
  "present_values [] = []"
| "present_values (Val v # xs) = v # present_values xs"
| "present_values (_ # xs) = present_values xs"

section \<open>Provided assets: \<open>CxAsset.Provided.get\<close>\<close>

text \<open>
  Modelled from the spec: \<open>CxAsset.Provided\<close> is only declared among the sources. A
  provided asset wraps the evaluator of the asset, which need not be pure; \<open>get()\<close>
  evaluates the asset at most once, and every later call returns the asset evaluated
  before ("evaluate once, cache forever"). \<open>pa_calls\<close> is the number of invocations of the
  evaluator made so far.
\<close>

record 'a provided_asset =
  pa_evaluator :: "unit \<Rightarrow> nat \<Rightarrow> 'a jsval"
  pa_evaluated :: "'a jsval option"
  pa_calls :: nat

definition new_provided_asset :: "(unit \<Rightarrow> nat \<Rightarrow> 'a jsval) \<Rightarrow> 'a provided_asset" where
  "new_provided_asset evaluator =
     \<lparr>pa_evaluator = evaluator, pa_evaluated = None, pa_calls = 0\<rparr>"

definition Provided_get :: "'a provided_asset \<Rightarrow> 'a jsval \<times> 'a provided_asset" where
  "Provided_get p =
     (case pa_evaluated p of
        Some asset \<Rightarrow> (asset, p)
      | None \<Rightarrow>
          (let (asset, calls) = invoke (pa_evaluator p) () (pa_calls p)
           in (asset, p\<lparr>pa_evaluated := Some asset, pa_calls := calls\<rparr>)))"

text \<open>A series of calls of \<open>get()\<close> on one provided asset.\<close>

fun Provided_gets :: "nat \<Rightarrow> 'a provided_asset \<Rightarrow> 'a jsval list \<times> 'a provided_asset" where
  "Provided_gets 0 p = ([], p)"
| "Provided_gets (Suc n) p =
     (let (asset, p') = Provided_get p;
          (assets, p'') = Provided_gets n p'
      in (asset # assets, p''))"

section \<open>The reactive single-value key: \<open>SingleContextUpKey.grow\<close>\<close>

datatype key_error = ContextKeyError | NotAnAfterEvent

text \<open>
  The keepers the method builds: \<open>afterThe(v)\<close> always sends \<open>v\<close>; the keeper made by
  \<open>afterEventBy\<close> throws \<open>ContextKeyError\<close> when a receiver is registered.
\<close>

datatype 'v after_event = AfterThe 'v | AfterEventBy_throw key_error

text \<open>
  What \<open>digAfter\<close> is handed back. \<open>defaultValue && afterThe(defaultValue)\<close> is the default
  value itself when that is falsy, so a falsy default that is not \<open>null\<close>/\<open>undefined\<close> is
  returned as it is (\<open>Raw\<close>).
\<close>

datatype 'v grown = Keeper "'v after_event" | Raw 'v

text \<open>
  The part of \<open>ContextValueSlot\<close> that \<open>grow\<close> reads. The slot's implementation is not among
  the sources; \<open>hasFallback\<close> and \<open>or\<close> are fields here.
\<close>

record 'v slot =
  hasFallback :: bool
  or :: "'v after_event jsval"

text \<open>
  Modelled from the spec: a request distinguishes "fallback not given" (\<open>None\<close>) from
  "fallback given as nothing" (\<open>Some Null\<close>, \<open>Some Undefined\<close>); the slot has a fallback
  exactly when the request carries one.
\<close>

definition slot_of_request :: "'v after_event jsval option \<Rightarrow> 'v slot" where
  "slot_of_request request_or =
     (case request_or of
        None \<Rightarrow> \<lparr>hasFallback = False, or = Undefined\<rparr>
      | Some fallback \<Rightarrow> \<lparr>hasFallback = True, or = fallback\<rparr>)"

text \<open>
  The function given to \<open>digAfter\<close>, applied to the sources the seed sends. \<open>truthy\<close> tells
  which values of the value type are truthy in JavaScript; \<open>byDefault\<close> is the result of
  \<open>this.byDefault(slot.context, this)\<close>.
\<close>

definition grow :: "('v \<Rightarrow> bool) \<Rightarrow> 'v jsval \<Rightarrow> 'v slot \<Rightarrow> 'v list \<Rightarrow> 'v grown" where
  "grow truthy byDefault slot sources =
     (if sources \<noteq> [] then Keeper (AfterThe (last sources))
      else
        (let backup =
               (if hasFallback slot then
                  (case or slot of
                     Val keeper \<Rightarrow> Val (Keeper keeper)
                   | Null \<Rightarrow> Null
                   | Undefined \<Rightarrow> Undefined)
                else
                  (case byDefault of
                     Val defaultValue \<Rightarrow>
                       (if truthy defaultValue then Val (Keeper (AfterThe defaultValue))
                        else Val (Raw defaultValue))
                   | Null \<Rightarrow> Null
                   | Undefined \<Rightarrow> Undefined))
         in case backup of
              Val found \<Rightarrow> found
            | _ \<Rightarrow> Keeper (AfterEventBy_throw ContextKeyError)))"

text \<open>\<open>readValue\<close> of the tests: register a receiver once and return what it receives.\<close>

fun readValue :: "'v grown \<Rightarrow> key_error + 'v" where
  "readValue (Keeper (AfterThe v)) = Inr v"
| "readValue (Keeper (AfterEventBy_throw e)) = Inl e"
| "readValue (Raw v) = Inl NotAnAfterEvent"

section \<open>Dynamic entries: \<open>cxDynamic\<close>\<close>

text \<open>
  The errors of the entry API. \<open>CxReferenceError\<close> carries the \<open>reason\<close> it was built
  with (\<open>undefined\<close> when none was given). \<open>NotAFunction\<close> is the \<open>TypeError\<close> of calling a
  variable that holds no function yet.
\<close>

datatype 'r cx_error = CxReferenceError "'r jsval" | NotAFunction

text \<open>
  Modelled from the spec: the enumeration \<open>CxRequestMethod\<close> is not among the sources.
  \<open>Assets\<close> marks a value built from at least one asset, \<open>Defaults\<close> a value from the
  default path; only \<open>Assets\<close> passes the test \<open>method > 0\<close>, which also fails while the
  variable \<open>method\<close> is unset.
\<close>

datatype CxRequestMethod = Defaults | Assets

fun method_positive :: "CxRequestMethod option \<Rightarrow> bool" where
  "method_positive (Some Assets) = True"
| "method_positive _ = False"

text \<open>
  The internal state \<open>TState\<close>. Without a \<open>create\<close> option the state is the array of
  assets itself (\<open>assets as unknown as TState\<close>), otherwise what the user's function returns.
\<close>

datatype ('a, 'u) tstate = AssetArray "'a list" | UserState 'u

definition cxDynamic_create :: "'a list \<Rightarrow> ('a, 'u) tstate" where
  "cxDynamic_create assets = AssetArray assets"

definition cxDynamic_byDefault :: "('a, 'u) tstate" where
  "cxDynamic_byDefault = AssetArray []"

text \<open>
  Modelled from the spec: \<open>cxRecent$access\<close>, the default of the option \<open>access\<close>, is not
  among the sources; without \<open>access\<close> the value of the entry is the internal state itself.
\<close>

definition cxRecent_access :: "('a, 'u) tstate \<Rightarrow> ('a, 'u) tstate" where
  "cxRecent_access state = state"

text \<open>
  The options of \<open>cxDynamic\<close>. The functions \<open>create\<close> and \<open>byDefault\<close> are modelled by
  their results (\<open>byDefault\<close> by the state it returns for the target); the adapter
  \<open>access\<close> by the function it applies to the state its getter argument returns, the getter
  being called once for each access.
\<close>

record ('a, 'u, 'v) cxDynamic_options =
  create :: "('a list \<Rightarrow> 'u) option"
  byDefault :: "('a, 'u) tstate option"
  access :: "('a, 'u) tstate \<Rightarrow> 'v"

text \<open>
  An element of the list \<open>trackAssetList\<close> reports: \<open>provided_eachAsset\<close> are the assets
  its method \<open>eachAsset\<close> passes to the callback, in order.
\<close>

record 'a provided =
  provided_supply :: nat
  provided_rank :: nat
  provided_eachAsset :: "'a list"

text \<open>
  The functions held by the variables of the definer's closure.
  \<^item> \<open>getDefaultState\<close> and \<open>getState\<close>: unset, \<open>() => state\<close>, \<open>target.lazy(byDefault)\<close>,
    \<open>cxDynamic$byDefault\<close>, or \<open>cxUnavailable(entry, undefined, reason)\<close>;
  \<open>cxUnavailable(target.entry)\<close> is \<open>Unavailable Undefined\<close>.
  \<^item> \<open>getDefaultValue\<close> and \<open>getValue\<close>: the closure returned by \<open>access\<close> over
    \<open>() => getDefaultState()\<close> or \<open>() => getState()\<close>, which reads the variable when it is
    called, or \<open>cxUnavailable(...)\<close>.
  \<^item> \<open>getAssign\<close>: the function returned by \<open>target.lazy\<close>, or \<open>cxUnavailable(...)\<close>.

  Modelled from the spec: \<open>cxUnavailable\<close> is not among the sources; the function it returns
  fails unconditionally with a \<open>CxReferenceError\<close> that carries the reason.
\<close>

datatype ('s, 'r) state_getter =
    Unassigned
  | Returns 's
  | LazyByDefault 's
  | ByDefaultArray
  | Unavailable "'r jsval"

datatype 'r value_getter = AccessDefaultState | AccessState | ValueUnavailable "'r jsval"

datatype 'r assign_getter = LazyAssign | AssignUnavailable "'r jsval"

text \<open>
  The closure of one definition. Besides the five variables: the variable \<open>method\<close>
  (field \<open>cx_method\<close>); the cell of \<open>target.lazy(byDefault)\<close>; \<open>tracking\<close>, the cell of the \<open>target.lazy\<close> behind
  \<open>getAssign\<close> (once it has run, the receiver is registered with \<open>trackAssetList\<close>); the
  state of \<open>target.supply\<close> (\<open>Some reason\<close> once cut off); and two ghost fields: the
  arguments of all invocations of \<open>create\<close>, in order, and the number of invocations of
  \<open>byDefault\<close>.
\<close>

record ('a, 'u, 'r) cxDynamic_closure =
  getDefaultState :: "(('a, 'u) tstate, 'r) state_getter"
  getState :: "(('a, 'u) tstate, 'r) state_getter"
  getDefaultValue :: "'r value_getter"
  getValue :: "'r value_getter"
  getAssign :: "'r assign_getter"
  cx_method :: "CxRequestMethod option"
  byDefault_cell :: "('a, 'u) tstate lazy"
  tracking :: bool
  supply_isOff :: "'r jsval option"
  create_calls :: "'a list list"
  byDefault_calls :: nat

definition hasDefault :: "('a, 'u, 'v) cxDynamic_options \<Rightarrow> bool" where
  "hasDefault opts = (byDefault opts \<noteq> None \<or> create opts = None)"

text \<open>The definer applied to a target whose supply is not cut off.\<close>

definition cxDynamic :: "('a, 'u, 'v) cxDynamic_options \<Rightarrow> ('a, 'u, 'r) cxDynamic_closure" where
  "cxDynamic opts =
     \<lparr>getDefaultState =
        (case byDefault opts of
           Some state \<Rightarrow> LazyByDefault state
         | None \<Rightarrow> (if create opts \<noteq> None then Unavailable Undefined else ByDefaultArray)),
      getState = Unassigned,
      getDefaultValue = AccessDefaultState,
      getValue = AccessState,
      getAssign = LazyAssign,
      cx_method = None,
      byDefault_cell = Unevaluated,
      tracking = False,
      supply_isOff = None,
      create_calls = [],
      byDefault_calls = 0\<rparr>"

text \<open>
  The receiver registered by \<open>target.supply.whenOff\<close>, and \<open>target.supply.off(reason)\<close>:
  a supply is cut off once, and a receiver of \<open>whenOff\<close> is called once.
\<close>

definition whenOff_receiver ::
  "'r jsval \<Rightarrow> ('a, 'u, 'r) cxDynamic_closure \<Rightarrow> ('a, 'u, 'r) cxDynamic_closure" where
  "whenOff_receiver reason c =
     c\<lparr>getDefaultState := Unavailable reason,
       getState := Unavailable reason,
       getDefaultValue := ValueUnavailable reason,
       getValue := ValueUnavailable reason,
       getAssign := AssignUnavailable reason\<rparr>"

definition target_supply_off ::
  "'r jsval \<Rightarrow> ('a, 'u, 'r) cxDynamic_closure \<Rightarrow> ('a, 'u, 'r) cxDynamic_closure" where
  "target_supply_off reason c =
     (case supply_isOff c of
        Some _ \<Rightarrow> c
      | None \<Rightarrow> whenOff_receiver reason (c\<lparr>supply_isOff := Some reason\<rparr>))"

text \<open>Calling the function held by \<open>getState\<close> or \<open>getDefaultState\<close>.\<close>

definition call_state_getter ::
  "(('a, 'u) tstate, 'r) state_getter \<Rightarrow> ('a, 'u, 'r) cxDynamic_closure \<Rightarrow>
   ('r cx_error + ('a, 'u) tstate) \<times> ('a, 'u, 'r) cxDynamic_closure" where
  "call_state_getter g c =
     (case g of
        Unassigned \<Rightarrow> (Inl NotAFunction, c)
      | Returns state \<Rightarrow> (Inr state, c)
      | LazyByDefault state \<Rightarrow>
          (case byDefault_cell c of
             Evaluated cached \<Rightarrow> (Inr cached, c)
           | Unevaluated \<Rightarrow>
               (Inr state, c\<lparr>byDefault_cell := Evaluated state,
                              byDefault_calls := Suc (byDefault_calls c)\<rparr>))
      | ByDefaultArray \<Rightarrow> (Inr cxDynamic_byDefault, c)
      | Unavailable reason \<Rightarrow> (Inl (CxReferenceError reason), c))"

text \<open>Calling the function held by \<open>getValue\<close> or \<open>getDefaultValue\<close>.\<close>

definition call_value_getter ::
  "('a, 'u, 'v) cxDynamic_options \<Rightarrow> 'r value_getter \<Rightarrow> ('a, 'u, 'r) cxDynamic_closure \<Rightarrow>
   ('r cx_error + 'v) \<times> ('a, 'u, 'r) cxDynamic_closure" where
  "call_value_getter opts g c =
     (case g of
        ValueUnavailable reason \<Rightarrow> (Inl (CxReferenceError reason), c)
      | AccessState \<Rightarrow>
          (case call_state_getter (getState c) c of
             (Inl e, c') \<Rightarrow> (Inl e, c')
           | (Inr state, c') \<Rightarrow> (Inr (access opts state), c'))
      | AccessDefaultState \<Rightarrow>
          (case call_state_getter (getDefaultState c) c of
             (Inl e, c') \<Rightarrow> (Inl e, c')
           | (Inr state, c') \<Rightarrow> (Inr (access opts state), c')))"

text \<open>
  The receiver given to \<open>target.trackAssetList\<close>, called with the tracked list.
\<close>

definition track_receiver ::
  "('a, 'u, 'v) cxDynamic_options \<Rightarrow> 'a provided list \<Rightarrow> ('a, 'u, 'r) cxDynamic_closure \<Rightarrow>
   ('a, 'u, 'r) cxDynamic_closure" where
  "track_receiver opts list c =
     (let assets = concat (map provided_eachAsset list)
      in if assets \<noteq> [] then
           (let state = (case create opts of
                           Some f \<Rightarrow> UserState (f assets)
                         | None \<Rightarrow> cxDynamic_create assets)
            in c\<lparr>cx_method := Some Assets,
                  getState := Returns state,
                  create_calls := create_calls c @ [assets]\<rparr>)
         else c\<lparr>cx_method := Some Defaults, getState := getDefaultState c\<rparr>)"

text \<open>
  Calling \<open>getAssign()\<close>. Modelled from the spec: \<open>target.lazy\<close> and
  \<open>target.trackAssetList\<close> are not among the sources; \<open>target.lazy\<close> runs its function on
  the first call only, and \<open>trackAssetList\<close> reports the current list at once when the
  receiver is registered. \<open>list\<close> is the list of the assets provided at the time of the call.
\<close>

definition call_getAssign ::
  "('a, 'u, 'v) cxDynamic_options \<Rightarrow> 'a provided list \<Rightarrow> ('a, 'u, 'r) cxDynamic_closure \<Rightarrow>
   ('r cx_error + unit) \<times> ('a, 'u, 'r) cxDynamic_closure" where
  "call_getAssign opts list c =
     (case getAssign c of
        AssignUnavailable reason \<Rightarrow> (Inl (CxReferenceError reason), c)
      | LazyAssign \<Rightarrow>
          (if tracking c then (Inr (), c)
           else (Inr (), (track_receiver opts list c)\<lparr>tracking := True\<rparr>)))"

text \<open>
  What an assigner is called with: nothing, \<open>assigner(value)\<close> or \<open>assigner(value, method)\<close>.
\<close>

datatype 'v assigned = NotAssigned | Assigned 'v "CxRequestMethod option"

text \<open>
  \<open>getAssign()(assigner, isDefault)\<close>, the body of the methods \<open>assign\<close> and
  \<open>assignDefault\<close> of the definition.
\<close>

definition assign_with ::
  "('a, 'u, 'v) cxDynamic_options \<Rightarrow> 'a provided list \<Rightarrow> bool \<Rightarrow> ('a, 'u, 'r) cxDynamic_closure \<Rightarrow>
   ('r cx_error + 'v assigned) \<times> ('a, 'u, 'r) cxDynamic_closure" where
  "assign_with opts list isDefault c =
     (case call_getAssign opts list c of
        (Inl e, c') \<Rightarrow> (Inl e, c')
      | (Inr _, c') \<Rightarrow>
          (if hasDefault opts then
             (if isDefault then
                (case call_value_getter opts (getDefaultValue c') c' of
                   (Inl e, c'') \<Rightarrow> (Inl e, c'')
                 | (Inr v, c'') \<Rightarrow> (Inr (Assigned v None), c''))
              else
                (case call_value_getter opts (getValue c') c' of
                   (Inl e, c'') \<Rightarrow> (Inl e, c'')
                 | (Inr v, c'') \<Rightarrow> (Inr (Assigned v (cx_method c'')), c'')))
           else
             (if \<not> isDefault \<and> method_positive (cx_method c') then
                (case call_value_getter opts (getValue c') c' of
                   (Inl e, c'') \<Rightarrow> (Inl e, c'')
                 | (Inr v, c'') \<Rightarrow> (Inr (Assigned v (cx_method c'')), c''))
              else (Inr NotAssigned, c'))))"

definition assign ::
  "('a, 'u, 'v) cxDynamic_options \<Rightarrow> 'a provided list \<Rightarrow> ('a, 'u, 'r) cxDynamic_closure \<Rightarrow>
   ('r cx_error + 'v assigned) \<times> ('a, 'u, 'r) cxDynamic_closure" where
  "assign opts list c = assign_with opts list False c"

definition assignDefault ::
  "('a, 'u, 'v) cxDynamic_options \<Rightarrow> 'a provided list \<Rightarrow> ('a, 'u, 'r) cxDynamic_closure \<Rightarrow>
   ('r cx_error + 'v assigned) \<times> ('a, 'u, 'r) cxDynamic_closure" where
  "assignDefault opts list c = assign_with opts list True c"

text \<open>
  What can happen to a definition during the life of its scope: a call of \<open>assign\<close> or
  \<open>assignDefault\<close> (with the assets provided then), a change of the tracked asset list,
  reported to the receiver if it is registered, and the end of the target's supply.
\<close>

datatype ('a, 'r) event =
    CallAssign "'a provided list"
  | CallAssignDefault "'a provided list"
  | ListChanged "'a provided list"
  | SupplyOff "'r jsval"

fun step ::
  "('a, 'u, 'v) cxDynamic_options \<Rightarrow> ('a, 'u, 'r) cxDynamic_closure \<Rightarrow> ('a, 'r) event \<Rightarrow>
   ('a, 'u, 'r) cxDynamic_closure" where
  "step opts c (CallAssign list) = snd (assign opts list c)"
| "step opts c (CallAssignDefault list) = snd (assignDefault opts list c)"
| "step opts c (ListChanged list) = (if tracking c then track_receiver opts list c else c)"
| "step opts c (SupplyOff reason) = target_supply_off reason c"

definition run ::
  "('a, 'u, 'v) cxDynamic_options \<Rightarrow> ('a, 'r) event list \<Rightarrow> ('a, 'u, 'r) cxDynamic_closure \<Rightarrow>
   ('a, 'u, 'r) cxDynamic_closure" where
  "run opts events c = foldl (step opts) c events"

text \<open>
  Modelled from the spec: the list \<open>trackAssetList\<close> reports for a registry. Every
  registered asset is one element, in registration order, whose \<open>eachAsset\<close> passes on the
  assets that are not \<open>null\<close>/\<open>undefined\<close>; all assets of one registry have rank 0.
\<close>

definition trackAssetList :: "'a registry \<Rightarrow> 'a provided list" where
  "trackAssetList r =
     map (\<lambda>(s, a). \<lparr>provided_supply = s, provided_rank = 0,
                     provided_eachAsset = present_values (placeAsset a)\<rparr>) (bucket r)"

text \<open>\<open>cxDynamic()\<close> without options: the array-valued entry.\<close>

definition array_options :: "('a, 'u, ('a, 'u) tstate) cxDynamic_options" where
  "array_options = \<lparr>create = None, byDefault = None, access = cxRecent_access\<rparr>"

text \<open>Registration of several assets, one after the other.\<close>

definition provide_all :: "'a cx_asset list \<Rightarrow> 'a registry \<Rightarrow> 'a registry" where
  "provide_all assets r = foldl (\<lambda>r' a. snd (provide a r')) r assets"

text \<open>
  Resolution of an array-valued entry in a fresh scope over the registry: what the first
  call of \<open>assign\<close> hands to the assigner.
\<close>

definition resolve_array :: "'a registry \<Rightarrow> unit cx_error + ('a, unit) tstate assigned" where
  "resolve_array r =
     fst (assign array_options (trackAssetList r)
            (cxDynamic array_options :: ('a, unit, unit) cxDynamic_closure))"

section \<open>The context value accessor\<close>

text \<open>
  A definition (\<open>CxEntry.Definition\<close>) with its two optional methods, modelled by what they
  return: \<open>None\<close> when the method is not defined.
\<close>

record 'v entry_definition =
  def_get :: "'v jsval option"
  def_getDefault :: "'v jsval option"

text \<open>A request: \<open>None\<close> when it has no property \<open>or\<close>.\<close>

record 'v cx_request =
  request_or :: "'v jsval option"

text \<open>The two declared overloads of \<open>get\<close>; the choice is made by the type checker.\<close>

datatype get_overload = WithFallback | Nullable

text \<open>
  Modelled from the spec: the implementation of \<open>CxValues.Accessor.get\<close> is not among the
  sources, which only declare its two overloads. The accessor resolves in this order: the
  definition's \<open>get()\<close> if it returns a value; the fallback \<open>request.or\<close> if one was given and
  is a value; the definition's \<open>getDefault()\<close> if it returns a value; otherwise it fails
  with a \<open>CxReferenceError\<close>, unless the nullable-returning overload is used, which yields
  \<open>null\<close>. A fallback that is not given and a \<open>null\<close> fallback are treated alike.
\<close>

definition value_of :: "'v jsval option \<Rightarrow> 'v option" where
  "value_of r = (case r of Some (Val v) \<Rightarrow> Some v | _ \<Rightarrow> None)"

definition accessor_get ::
  "get_overload \<Rightarrow> 'v entry_definition \<Rightarrow> 'v cx_request option \<Rightarrow> unit cx_error + 'v jsval" where
  "accessor_get overload d request =
     (case value_of (def_get d) of
        Some v \<Rightarrow> Inr (Val v)
      | None \<Rightarrow>
          (case value_of (case request of None \<Rightarrow> None | Some rq \<Rightarrow> request_or rq) of
             Some fallback \<Rightarrow> Inr (Val fallback)
           | None \<Rightarrow>
               (case value_of (def_getDefault d) of
                  Some dflt \<Rightarrow> Inr (Val dflt)
                | None \<Rightarrow>
                    (case overload of
                       Nullable \<Rightarrow> Inr Null
                     | WithFallback \<Rightarrow> Inl (CxReferenceError Undefined)))))"

section \<open>Invariants\<close>

text \<open>
  An entry of a seed is either not evaluated yet, and its provider has not been invoked, or
  it holds what the first invocation of its provider returned, and that was the only one.
\<close>

definition entry_cached :: "'ctx \<Rightarrow> ('ctx, 'src) source_entry \<Rightarrow> bool" where
  "entry_cached context entry =
     (case se_source entry of
        None \<Rightarrow> se_calls entry = 0
      | Some cached \<Rightarrow> se_calls entry = 1 \<and> cached = se_provider entry context 0)"

definition entry_evaluated :: "'ctx \<Rightarrow> ('ctx, 'src) source_entry \<Rightarrow> bool" where
  "entry_evaluated context entry =
     (se_calls entry = 1 \<and> se_source entry = Some (se_provider entry context 0))"

text \<open>
  \<open>byDefault\<close> has been invoked at most once, and not at all while the cell of
  \<open>target.lazy(byDefault)\<close> is empty.
\<close>

definition byDefault_once :: "('a, 'u, 'r) cxDynamic_closure \<Rightarrow> bool" where
  "byDefault_once c =
     (byDefault_calls c \<le> (case byDefault_cell c of Unevaluated \<Rightarrow> 0 | Evaluated _ \<Rightarrow> 1))"

section \<open>Properties of \<open>cxSingle\<close>\<close>

lemma cxSingle_loop_value:
  "i \<le> length assets \<Longrightarrow>
   fst (cxSingle_loop assets i value calls) =
     (case find is_present (rev (take i assets)) of
        Some v \<Rightarrow> v
      | None \<Rightarrow> (if i = 0 then value else hd assets))"
proof (induction i arbitrary: "value" calls)
  case 0
  then show ?case by simp
next
  case (Suc i)
  then have lt: "i < length assets" by simp
  have tk: "take (Suc i) assets = take i assets @ [assets ! i]"
    using lt by (simp add: take_Suc_conv_app_nth)
  show ?case
  proof (cases "is_present (assets ! i)")
    case True
    then show ?thesis by (simp add: tk Let_def)
  next
    case False
    have hd0: "assets ! 0 = hd assets"
      using lt by (cases assets) simp_all
    from False Suc.IH[of "assets ! i"] lt show ?thesis
      by (auto simp: tk Let_def hd0 split: option.splits)
  qed
qed

lemma cxSingle_compute_value:
  "fst (cxSingle_compute assets) =
     (case find is_present (rev assets) of
        Some v \<Rightarrow> v
      | None \<Rightarrow> (if assets = [] then Undefined else hd assets))"
  using cxSingle_loop_value[of "length assets" assets Undefined "replicate (length assets) 0"]
  by (simp add: cxSingle_compute_def)

lemma find_rev_last_present:
  "is_present v \<Longrightarrow> \<forall>y \<in> set ys. \<not> is_present y \<Longrightarrow>
   find is_present (rev (xs @ v # ys)) = Some v"
  by (induction ys rule: rev_induct) auto

lemma find_none_absent:
  "\<forall>y \<in> set ys. \<not> is_present y \<Longrightarrow> find is_present (rev ys) = None"
  by (induction ys rule: rev_induct) auto

lemma cxSingle_get_fresh:
  "fst (cxSingle_get assets (cxSingle dflt)) = fst (cxSingle_compute assets)"
  by (simp add: cxSingle_get_def cxSingle_def split: prod.splits)

text \<open>
  Claim C1. The first \<open>get()\<close> of a \<open>cxSingle\<close> definition returns the value of the
  last-registered asset whose evaluator returns a value other than \<open>null\<close>/\<open>undefined\<close>.
  When every evaluator returns \<open>null\<close>/\<open>undefined\<close>, \<open>get()\<close> returns the result evaluated
  last (that of the first-registered asset), which is not a value, and \<open>undefined\<close> when
  there is no asset at all; \<open>getDefault\<close> is defined exactly when \<open>byDefault\<close> was given and
  then returns its result. For assets \<open>v1\<close>, \<open>v2\<close>, \<open>v3\<close> registered in that order the entry
  resolves to \<open>v3\<close>; once the registration of \<open>v3\<close> is revoked, to \<open>v2\<close>; once that is
  revoked too, to \<open>v1\<close>. Each resolution is the first \<open>get()\<close> of a definition over the
  assets registered at that moment.
\<close>

theorem cxSingle_last_wins:
  "(is_present v \<and> (\<forall>y \<in> set ys. \<not> is_present y) \<longrightarrow>
      fst (cxSingle_get (xs @ v # ys) (cxSingle dflt)) = v)
   \<and> ((\<forall>y \<in> set (a # as). \<not> is_present y) \<longrightarrow>
      fst (cxSingle_get (a # as) (cxSingle dflt)) = a \<and> \<not> is_present a)
   \<and> fst (cxSingle_get [] (cxSingle dflt)) = Undefined
   \<and> fst (cxSingle_getDefault dflt (cxSingle dflt)) = dflt
   \<and> (let (s1, r1) = provide (cxConstAsset (Val v1)) empty_registry;
           (s2, r2) = provide (cxConstAsset (Val v2)) r1;
           (s3, r3) = provide (cxConstAsset (Val v3)) r2
       in resolve_single r3 = Val v3
          \<and> resolve_single (supply_off s3 r3) = Val v2
          \<and> resolve_single (supply_off s2 (supply_off s3 r3)) = Val v1)"
proof (intro conjI impI)
  assume "is_present v \<and> (\<forall>y \<in> set ys. \<not> is_present y)"
  then show "fst (cxSingle_get (xs @ v # ys) (cxSingle dflt)) = v"
    by (simp add: cxSingle_get_fresh cxSingle_compute_value find_rev_last_present
        del: rev_append rev.simps)
next
  assume abs: "\<forall>y \<in> set (a # as). \<not> is_present y"
  then have "find is_present (rev (a # as)) = None"
    by (rule find_none_absent)
  then show "fst (cxSingle_get (a # as) (cxSingle dflt)) = a"
    by (simp add: cxSingle_get_fresh cxSingle_compute_value del: rev.simps)
  from abs show "\<not> is_present a" by simp
next
  show "fst (cxSingle_get [] (cxSingle dflt)) = Undefined"
    by (simp add: cxSingle_get_fresh cxSingle_compute_value)
next
  show "fst (cxSingle_getDefault dflt (cxSingle dflt)) = dflt"
    by (cases dflt) (simp_all add: cxSingle_getDefault_def cxSingle_def)
next
  show "let (s1, r1) = provide (cxConstAsset (Val v1)) empty_registry;
            (s2, r2) = provide (cxConstAsset (Val v2)) r1;
            (s3, r3) = provide (cxConstAsset (Val v3)) r2
        in resolve_single r3 = Val v3
           \<and> resolve_single (supply_off s3 r3) = Val v2
           \<and> resolve_single (supply_off s2 (supply_off s3 r3)) = Val v1"
    by (simp add: provide_def empty_registry_def supply_off_def resolve_single_def
        target_eachAsset_def cxConstAsset_def cxSingle_get_fresh cxSingle_compute_value)
qed

theorem cxSingle_last_wins_witness:
  "fst (cxSingle_get ([Val (1::nat), Null] @ Val 2 # [Undefined, Null]) (cxSingle (Some (Val 7)))) = Val 2
   \<and> fst (cxSingle_get [Null, Undefined] (cxSingle (Some (Val (7::nat))))) = Null
   \<and> fst (cxSingle_getDefault (Some (Val (7::nat))) (cxSingle (Some (Val 7)))) = Some (Val 7)"
proof -
  note t = cxSingle_last_wins[where v = "Val (2::nat)" and ys = "[Undefined, Null]"
      and xs = "[Val 1, Null]" and dflt = "Some (Val 7)" and a = Null
      and as = "[Undefined]" and ?v1.0 = 1 and ?v2.0 = 2 and ?v3.0 = 3]
  have h1: "is_present (Val (2::nat)) \<and> (\<forall>y \<in> set [Undefined, Null :: nat jsval]. \<not> is_present y)"
    by simp
  have h2: "\<forall>y \<in> set (Null # [Undefined :: nat jsval]). \<not> is_present y"
    by simp
  from t h1 h2 show ?thesis by blast
qed

section \<open>Memoized evaluation\<close>

lemma cxSingle_gets_cached:
  "get_cell d = Evaluated v \<Longrightarrow> cxSingle_gets ass d = (replicate (length ass) v, d)"
  by (induction ass) (simp_all add: cxSingle_get_def)

lemma cxSingle_loop_calls:
  "i \<le> length calls \<Longrightarrow> \<forall>j<i. calls ! j = 0 \<Longrightarrow> \<forall>c \<in> set calls. c \<le> 1 \<Longrightarrow>
   \<forall>c \<in> set (snd (cxSingle_loop assets i value calls)). c \<le> 1"
proof (induction i arbitrary: "value" calls)
  case 0
  then show ?case by simp
next
  case (Suc i)
  let ?calls = "calls[i := Suc (calls ! i)]"
  have z: "calls ! i = 0" using Suc.prems by simp
  have b: "\<forall>c \<in> set ?calls. c \<le> 1"
    using Suc.prems(3) z by (auto dest!: subsetD[OF set_update_subset_insert])
  have a: "\<forall>j<i. ?calls ! j = 0" using Suc.prems by simp
  have l: "i \<le> length ?calls" using Suc.prems by simp
  from Suc.IH[OF l a b] b show ?case
    by (simp add: Let_def)
qed

lemma cxSingle_compute_calls:
  "\<forall>c \<in> set (snd (cxSingle_compute assets)). c \<le> 1"
  unfolding cxSingle_compute_def
  by (rule cxSingle_loop_calls) simp_all

lemma cxSingle_gets_memoized:
  "(let (vs, d) = cxSingle_gets (assets # rest) (cxSingle dflt)
    in vs = replicate (Suc (length rest)) (fst (cxSingle_compute assets))
       \<and> get_runs d = 1
       \<and> (\<forall>c \<in> set (eval_calls d). c \<le> 1))"
proof -
  obtain v calls where vc: "cxSingle_compute assets = (v, calls)"
    by (cases "cxSingle_compute assets")
  let ?d = "(cxSingle dflt)\<lparr>get_cell := Evaluated v, get_runs := Suc 0, eval_calls := calls\<rparr>"
  have g: "cxSingle_get assets (cxSingle dflt) = (v, ?d)"
    by (simp add: cxSingle_get_def cxSingle_def vc)
  have c: "cxSingle_gets rest ?d = (replicate (length rest) v, ?d)"
    by (rule cxSingle_gets_cached) simp
  have b: "\<forall>c \<in> set calls. c \<le> 1"
    using cxSingle_compute_calls[of assets] by (simp add: vc)
  show ?thesis using b by (simp add: g c vc)
qed

lemma seed_map_cached:
  "entry_cached ctx e \<Longrightarrow>
   entry_cached ctx (snd (seed_map ctx e)) \<and> se_provider (snd (seed_map ctx e)) = se_provider e
   \<and> fst (seed_map ctx e) = se_provider e ctx 0
   \<and> entry_evaluated ctx (snd (seed_map ctx e))"
  by (cases "se_source e")
    (simp_all add: entry_cached_def entry_evaluated_def seed_map_def invoke_def)

lemma seed_map_evaluated:
  "entry_evaluated ctx e \<Longrightarrow> seed_map ctx e = (se_provider e ctx 0, e)"
  by (simp add: entry_evaluated_def seed_map_def)

lemma entry_evaluated_cached: "entry_evaluated ctx e \<Longrightarrow> entry_cached ctx e"
  by (simp add: entry_evaluated_def entry_cached_def)

lemma seed_take_cached:
  "list_all (entry_cached ctx) es \<Longrightarrow> seed_take n ctx es = (vs, es') \<Longrightarrow>
   list_all (entry_cached ctx) es'
   \<and> map se_provider es' = map se_provider es
   \<and> vs = take n (present_values (map (\<lambda>e. se_provider e ctx 0) es))
   \<and> (length es \<le> n \<longrightarrow> list_all (entry_evaluated ctx) es')"
proof (induction n ctx es arbitrary: vs es' rule: seed_take.induct)
  case (1 cx entries)
  then show ?case by simp
next
  case (2 n cx)
  then show ?case by simp
next
  case (3 n cx entry entries)
  from "3.prems" have e: "entry_cached cx entry" and es: "list_all (entry_cached cx) entries"
    by simp_all
  obtain source entry' where sm: "seed_map cx entry = (source, entry')"
    by (cases "seed_map cx entry")
  from seed_map_cached[OF e] sm have e': "entry_cached cx entry'"
    and p': "se_provider entry' = se_provider entry" and s: "se_provider entry cx 0 = source"
    and v': "entry_evaluated cx entry'"
    by simp_all
  show ?case
  proof (cases source)
    case (Val v)
    obtain vs0 es0 where r: "seed_take n cx entries = (vs0, es0)"
      by (cases "seed_take n cx entries")
    from "3.IH"(3)[OF refl sm[symmetric] Val es r]
    have ih: "list_all (entry_cached cx) es0" "map se_provider es0 = map se_provider entries"
      "vs0 = take n (present_values (map (\<lambda>e. se_provider e cx 0) entries))"
      "length entries \<le> n \<longrightarrow> list_all (entry_evaluated cx) es0"
      by simp_all
    from "3.prems"(2) have "vs = v # vs0" "es' = entry' # es0"
      by (simp_all add: sm Val r)
    with ih e' p' s v' Val show ?thesis by simp
  next
    case Null
    obtain vs0 es0 where r: "seed_take (Suc n) cx entries = (vs0, es0)"
      by (cases "seed_take (Suc n) cx entries")
    from "3.IH"(2)[OF refl sm[symmetric] Null es r]
    have ih: "list_all (entry_cached cx) es0" "map se_provider es0 = map se_provider entries"
      "vs0 = take (Suc n) (present_values (map (\<lambda>e. se_provider e cx 0) entries))"
      "length entries \<le> Suc n \<longrightarrow> list_all (entry_evaluated cx) es0"
      by simp_all
    from "3.prems"(2) have "vs = vs0" "es' = entry' # es0"
      by (simp_all add: sm Null r)
    with ih e' p' s v' Null show ?thesis by simp
  next
    case Undefined
    obtain vs0 es0 where r: "seed_take (Suc n) cx entries = (vs0, es0)"
      by (cases "seed_take (Suc n) cx entries")
    from "3.IH"(1)[OF refl sm[symmetric] Undefined es r]
    have ih: "list_all (entry_cached cx) es0" "map se_provider es0 = map se_provider entries"
      "vs0 = take (Suc n) (present_values (map (\<lambda>e. se_provider e cx 0) entries))"
      "length entries \<le> Suc n \<longrightarrow> list_all (entry_evaluated cx) es0"
      by simp_all
    from "3.prems"(2) have "vs = vs0" "es' = entry' # es0"
      by (simp_all add: sm Undefined r)
    with ih e' p' s v' Undefined show ?thesis by simp
  qed
qed

lemma seed_take_evaluated:
  "list_all (entry_evaluated ctx) es \<Longrightarrow> snd (seed_take n ctx es) = es"
proof (induction n ctx es rule: seed_take.induct)
  case (1 cx entries)
  then show ?case by simp
next
  case (2 n cx)
  then show ?case by simp
next
  case (3 n cx entry entries)
  from "3.prems" have e: "entry_evaluated cx entry"
    and es: "list_all (entry_evaluated cx) entries"
    by simp_all
  note sm = seed_map_evaluated[OF e]
  show ?case
  proof (cases "se_provider entry cx 0")
    case (Val v)
    obtain vs0 es0 where r: "seed_take n cx entries = (vs0, es0)"
      by (cases "seed_take n cx entries")
    from "3.IH"(3)[OF refl sm[symmetric] Val es] r have "es0 = entries" by simp
    with r show ?thesis by (simp add: sm Val)
  next
    case Null
    obtain vs0 es0 where r: "seed_take (Suc n) cx entries = (vs0, es0)"
      by (cases "seed_take (Suc n) cx entries")
    from "3.IH"(2)[OF refl sm[symmetric] Null es] r have "es0 = entries" by simp
    with r show ?thesis by (simp add: sm Null)
  next
    case Undefined
    obtain vs0 es0 where r: "seed_take (Suc n) cx entries = (vs0, es0)"
      by (cases "seed_take (Suc n) cx entries")
    from "3.IH"(1)[OF refl sm[symmetric] Undefined es] r have "es0 = entries" by simp
    with r show ?thesis by (simp add: sm Undefined)
  qed
qed

lemma seed_takes_evaluated:
  "list_all (entry_evaluated ctx) es \<Longrightarrow> snd (seed_takes ns ctx es) = es"
proof (induction ns)
  case Nil
  then show ?case by simp
next
  case (Cons n ns)
  obtain vs0 es0 where r: "seed_take n ctx es = (vs0, es0)"
    by (cases "seed_take n ctx es")
  obtain vss1 es1 where r1: "seed_takes ns ctx es = (vss1, es1)"
    by (cases "seed_takes ns ctx es")
  from seed_take_evaluated[OF Cons.prems, of n] r have a: "es0 = es" by simp
  from Cons.IH[OF Cons.prems] r1 have b: "es1 = es" by simp
  show ?case by (simp add: r a r1 b)
qed

lemma map_provider_at:
  "map se_provider es' = map se_provider es \<Longrightarrow>
   map (\<lambda>e. se_provider e ctx 0) es' = map (\<lambda>e. se_provider e ctx 0) es"
proof -
  assume "map se_provider es' = map se_provider es"
  then have "map (\<lambda>f. f ctx 0) (map se_provider es') = map (\<lambda>f. f ctx 0) (map se_provider es)"
    by simp
  then show ?thesis by (simp add: comp_def)
qed

lemma seed_takes_cached:
  "list_all (entry_cached ctx) es \<Longrightarrow> seed_takes ns ctx es = (vss, es') \<Longrightarrow>
   list_all (entry_cached ctx) es'
   \<and> map se_provider es' = map se_provider es
   \<and> vss = map (\<lambda>n. take n (present_values (map (\<lambda>e. se_provider e ctx 0) es))) ns"
proof (induction ns arbitrary: es vss es')
  case Nil
  then show ?case by simp
next
  case (Cons n ns)
  obtain vs0 es0 where r: "seed_take n ctx es = (vs0, es0)"
    by (cases "seed_take n ctx es")
  obtain vss1 es1 where r1: "seed_takes ns ctx es0 = (vss1, es1)"
    by (cases "seed_takes ns ctx es0")
  from seed_take_cached[OF Cons.prems(1) r]
  have t: "list_all (entry_cached ctx) es0" "map se_provider es0 = map se_provider es"
    "vs0 = take n (present_values (map (\<lambda>e. se_provider e ctx 0) es))"
    by simp_all
  from Cons.IH[OF t(1) r1]
  have ih: "list_all (entry_cached ctx) es1" "map se_provider es1 = map se_provider es0"
    "vss1 = map (\<lambda>n. take n (present_values (map (\<lambda>e. se_provider e ctx 0) es0))) ns"
    by simp_all
  from Cons.prems(2) have "vss = vs0 # vss1" "es' = es1"
    by (simp_all add: r r1)
  with t ih map_provider_at[OF t(2), of ctx] show ?case by simp
qed

lemma iterativeSeed_cached: "list_all (entry_cached ctx) (iterativeSeed ps)"
  by (simp add: iterativeSeed_def list_all_iff entry_cached_def)

lemma iterativeSeed_providers:
  "map (\<lambda>e. se_provider e ctx 0) (iterativeSeed ps) = map (\<lambda>p. p ctx 0) ps"
  by (simp add: iterativeSeed_def comp_def)

lemma entry_cached_calls: "entry_cached ctx e \<Longrightarrow> se_calls e \<le> 1"
  by (cases "se_source e") (simp_all add: entry_cached_def)

lemma length_present_values: "length (present_values xs) \<le> length xs"
  by (induction xs rule: present_values.induct) simp_all

lemma seed_takes_memoized:
  "(let (vss, entries) = seed_takes ns ctx (iterativeSeed providers)
    in (\<forall>entry \<in> set entries. se_calls entry \<le> 1)
       \<and> vss = map (\<lambda>n. take n (present_values (map (\<lambda>p. p ctx 0) providers))) ns)"
proof -
  obtain vss es where r: "seed_takes ns ctx (iterativeSeed providers) = (vss, es)"
    by (cases "seed_takes ns ctx (iterativeSeed providers)")
  from seed_takes_cached[OF iterativeSeed_cached r]
  have t: "list_all (entry_cached ctx) es"
    "vss = map (\<lambda>n. take n (present_values (map (\<lambda>e. se_provider e ctx 0) (iterativeSeed providers)))) ns"
    by simp_all
  have "\<forall>entry \<in> set es. se_calls entry \<le> 1"
  proof
    fix entry assume "entry \<in> set es"
    with t(1) have "entry_cached ctx entry" by (simp add: list_all_iff)
    then show "se_calls entry \<le> 1" by (rule entry_cached_calls)
  qed
  with t(2) show ?thesis by (simp add: r iterativeSeed_providers)
qed

lemma seed_iterate_exactly_once:
  "(let (vs, entries) = seed_iterate ctx (iterativeSeed providers);
        (vss, entries') = seed_takes ns ctx entries
    in vs = present_values (map (\<lambda>p. p ctx 0) providers)
       \<and> (\<forall>entry \<in> set entries'. se_calls entry = 1)
       \<and> vss = map (\<lambda>n. take n (present_values (map (\<lambda>p. p ctx 0) providers))) ns)"
proof -
  obtain vs es where r: "seed_take (length (iterativeSeed providers)) ctx (iterativeSeed providers) = (vs, es)"
    by (cases "seed_take (length (iterativeSeed providers)) ctx (iterativeSeed providers)")
  obtain vss es' where r': "seed_takes ns ctx es = (vss, es')"
    by (cases "seed_takes ns ctx es")
  from seed_take_cached[OF iterativeSeed_cached r]
  have t: "list_all (entry_cached ctx) es" "map se_provider es = map se_provider (iterativeSeed providers)"
    "vs = take (length (iterativeSeed providers)) (present_values (map (\<lambda>p. p ctx 0) providers))"
    "list_all (entry_evaluated ctx) es"
    by (simp_all add: iterativeSeed_providers)
  have l: "length (present_values (map (\<lambda>p. p ctx 0) providers)) \<le> length (iterativeSeed providers)"
    using length_present_values[of "map (\<lambda>p. p ctx 0) providers"] by (simp add: iterativeSeed_def)
  from t(3) l have vs: "vs = present_values (map (\<lambda>p. p ctx 0) providers)" by simp
  from seed_takes_evaluated[OF t(4), of ns] r' have same: "es' = es" by simp
  have once: "\<forall>entry \<in> set es'. se_calls entry = 1"
  proof
    fix entry assume "entry \<in> set es'"
    with t(4) same have "entry_evaluated ctx entry" by (simp add: list_all_iff)
    then show "se_calls entry = 1" by (simp add: entry_evaluated_def)
  qed
  from seed_takes_cached[OF t(1) r'] map_provider_at[OF t(2), of ctx]
  have "vss = map (\<lambda>n. take n (present_values (map (\<lambda>p. p ctx 0) providers))) ns"
    by (simp add: iterativeSeed_providers)
  with vs once show ?thesis by (simp add: seed_iterate_def r r')
qed

lemma Provided_gets_evaluated:
  "pa_evaluated p = Some asset \<Longrightarrow> Provided_gets n p = (replicate n asset, p)"
  by (induction n) (simp_all add: Provided_get_def)

lemma Provided_gets_memoized:
  "(let (assets, p) = Provided_gets (Suc n) (new_provided_asset evaluator)
    in assets = replicate (Suc n) (evaluator () 0) \<and> pa_calls p = 1)"
proof -
  let ?p = "(new_provided_asset evaluator)\<lparr>pa_evaluated := Some (evaluator () 0), pa_calls := Suc 0\<rparr>"
  have g: "Provided_get (new_provided_asset evaluator) = (evaluator () 0, ?p)"
    by (simp add: Provided_get_def new_provided_asset_def invoke_def)
  have r: "Provided_gets n ?p = (replicate n (evaluator () 0), ?p)"
    by (rule Provided_gets_evaluated) simp
  show ?thesis by (simp add: g r)
qed

text \<open>
  Claim C8. Evaluation is memoized. Over any series of \<open>get()\<close> calls on one \<open>cxSingle\<close>
  definition, whatever assets the target offers at each call, the provider of the value runs
  once, every evaluator is invoked at most once, and every call returns the result of the
  first one. Over any series of iterations of one seed built by \<open>iterativeSeed\<close>, complete
  or not, every provider, pure or not, is invoked at most once, and every iteration hands
  over, as far as it goes, the present ones among the results of the first invocations, in
  order; once a complete iteration is over, every provider has been invoked exactly once,
  however many iterations follow. Any number of calls of \<open>get()\<close> on one provided asset
  invokes its evaluator exactly once, and every call returns what that invocation returned.
\<close>

theorem evaluation_memoized:
  "(let (vs, d) = cxSingle_gets (assets # rest) (cxSingle dflt)
    in vs = replicate (Suc (length rest)) (fst (cxSingle_compute assets))
       \<and> get_runs d = 1
       \<and> (\<forall>c \<in> set (eval_calls d). c \<le> 1))
   \<and> (let (vss, entries) = seed_takes ns ctx (iterativeSeed providers)
      in (\<forall>entry \<in> set entries. se_calls entry \<le> 1)
         \<and> vss = map (\<lambda>n. take n (present_values (map (\<lambda>p. p ctx 0) providers))) ns)
   \<and> (let (vs, entries) = seed_iterate ctx (iterativeSeed providers);
           (vss, entries') = seed_takes ns ctx entries
       in vs = present_values (map (\<lambda>p. p ctx 0) providers)
          \<and> (\<forall>entry \<in> set entries'. se_calls entry = 1)
          \<and> vss = map (\<lambda>n. take n (present_values (map (\<lambda>p. p ctx 0) providers))) ns)
   \<and> (let (got, p) = Provided_gets (Suc n) (new_provided_asset evaluator)
       in got = replicate (Suc n) (evaluator () 0) \<and> pa_calls p = 1)"
  using cxSingle_gets_memoized[of assets rest dflt] seed_takes_memoized[of ns ctx providers]
    seed_iterate_exactly_once[of ctx providers ns] Provided_gets_memoized[of n evaluator]
  by blast

theorem evaluation_memoized_witness:
  "fst (cxSingle_gets ([Val (1::nat), Null] # [[Val 5]]) (cxSingle None)) = [Val 1, Val 1]
   \<and> fst (seed_takes [1, 3, 2] ()
           (iterativeSeed [\<lambda>_ k. Val (1 + k), \<lambda>_ k. Null, \<lambda>_ k. Val (3 + 10 * k)]))
       = [[1::nat], [1, 3], [1, 3]]
   \<and> fst (Provided_gets (Suc 2) (new_provided_asset (\<lambda>_ k. Val (7 + k))))
       = [Val (7::nat), Val 7, Val 7]"
proof -
  note t = evaluation_memoized[where assets = "[Val (1::nat), Null]" and rest = "[[Val 5]]"
      and dflt = None and ns = "[1, 3, 2]" and ctx = "()"
      and providers = "[\<lambda>_ k. Val (1 + k), \<lambda>_ k. Null, \<lambda>_ k. Val (3 + 10 * k :: nat)]"
      and n = 2 and evaluator = "\<lambda>_ k. Val (7 + k :: nat)"]
  have c: "fst (cxSingle_compute [Val (1::nat), Null]) = Val 1"
    by (simp add: cxSingle_compute_def)
  from t have a: "fst (cxSingle_gets ([Val (1::nat), Null] # [[Val 5]]) (cxSingle None))
      = replicate (Suc (length [[Val (5::nat)]])) (fst (cxSingle_compute [Val (1::nat), Null]))"
    by (simp split: prod.splits)
  from t have b: "fst (seed_takes [1, 3, 2] ()
           (iterativeSeed [\<lambda>_ k. Val (1 + k), \<lambda>_ k. Null, \<lambda>_ k. Val (3 + 10 * k :: nat)]))
       = map (\<lambda>n. take n (present_values
            (map (\<lambda>p. p () 0) [\<lambda>_ k. Val (1 + k), \<lambda>_ k. Null, \<lambda>_ k. Val (3 + 10 * k :: nat)])))
           [1, 3, 2]"
    by (simp split: prod.splits)
  from t have g: "fst (Provided_gets (Suc 2) (new_provided_asset (\<lambda>_ k. Val (7 + k :: nat))))
       = replicate (Suc 2) (Val 7)"
    by (simp split: prod.splits)
  show ?thesis unfolding a b g c
    by (simp add: numeral_2_eq_2 numeral_3_eq_3)
qed

section \<open>Removal of providers\<close>

lemma seeder_remove_remove1: "seeder_remove p ps = remove1 p ps"
proof -
  have "(case indexOf ps p of Some found \<Rightarrow> splice1 found ps | None \<Rightarrow> ps) = remove1 p ps"
    by (induction ps) (auto simp: splice1_def split: option.splits)
  then show ?thesis by (simp add: seeder_remove_def)
qed

lemma seeder_remove_distinct:
  "p \<notin> set xs \<Longrightarrow> p \<notin> set ys \<Longrightarrow>
   seeder_remove p (xs @ p # ys) = xs @ ys \<and> seeder_remove p (xs @ ys) = xs @ ys"
  by (simp add: seeder_remove_remove1 remove1_append remove1_idem)

text \<open>
  Claim C7, at the input where it fails. The same provider function (reference 0, which
  returns \<open>value1\<close>) is registered twice; the handle returned by the second registration
  is invoked twice. The first invocation leaves one registration; the second one removes
  that one too, so it is not a no-op, no provider is left and the seed is empty. With
  another provider (reference 1) registered in between, the handle of the last
  registration removes the first one, so the order of the remaining registrations changes.
\<close>

theorem seeder_remove_twice_same_provider:
  "(let ps2 = seeder_provide (0::nat) (seeder_provide 0 []);
        once = seeder_remove 0 ps2;
        twice = seeder_remove 0 once
    in ps2 = [0, 0] \<and> once = [0] \<and> twice = [] \<and> twice \<noteq> once
       \<and> fst (seed_iterate () (iterativeSeed (map (\<lambda>p context k. Val ''value1'') once)))
           = [''value1'']
       \<and> fst (seed_iterate () (iterativeSeed (map (\<lambda>p context k. Val ''value1'') twice))) = [])
   \<and> seeder_remove 0 (seeder_provide 0 (seeder_provide 1 (seeder_provide (0::nat) []))) = [1, 0]"
  by (simp add: seeder_provide_def seeder_remove_def splice1_def seed_iterate_def
      iterativeSeed_def seed_map_def invoke_def Let_def)

section \<open>Dynamic entries after the end of the scope\<close>

lemma assign_with_unavailable:
  "getAssign c = AssignUnavailable reason \<Longrightarrow>
   assign_with opts list b c = (Inl (CxReferenceError reason), c)"
  by (simp add: assign_with_def call_getAssign_def)

lemma step_keeps_unavailable:
  "getAssign c = AssignUnavailable reason \<Longrightarrow> supply_isOff c = Some r0 \<Longrightarrow>
   getAssign (step opts c e) = AssignUnavailable reason \<and> supply_isOff (step opts c e) = Some r0"
  by (cases e)
    (simp_all add: assign_def assignDefault_def assign_with_unavailable track_receiver_def
      Let_def target_supply_off_def)

lemma run_keeps_unavailable:
  "getAssign c = AssignUnavailable reason \<Longrightarrow> supply_isOff c = Some r0 \<Longrightarrow>
   getAssign (run opts events c) = AssignUnavailable reason
   \<and> supply_isOff (run opts events c) = Some r0"
proof (induction events arbitrary: c)
  case Nil
  then show ?case by (simp add: run_def)
next
  case (Cons e events)
  from step_keeps_unavailable[OF Cons.prems, of opts e]
  have "getAssign (step opts c e) = AssignUnavailable reason"
    and "supply_isOff (step opts c e) = Some r0" by simp_all
  from Cons.IH[OF this] show ?case by (simp add: run_def)
qed

lemma target_supply_off_fields:
  "supply_isOff c = None \<Longrightarrow>
   getDefaultState (target_supply_off reason c) = Unavailable reason
   \<and> getState (target_supply_off reason c) = Unavailable reason
   \<and> getDefaultValue (target_supply_off reason c) = ValueUnavailable reason
   \<and> getValue (target_supply_off reason c) = ValueUnavailable reason
   \<and> getAssign (target_supply_off reason c) = AssignUnavailable reason
   \<and> supply_isOff (target_supply_off reason c) = Some reason"
  by (simp add: target_supply_off_def whenOff_receiver_def)

text \<open>
  Claim C3. When the supply of the target is cut off with some reason, the five variables
  \<open>getDefaultState\<close>, \<open>getState\<close>, \<open>getDefaultValue\<close>, \<open>getValue\<close> and \<open>getAssign\<close> are
  replaced by the unavailable function: each of them, when called, fails with a
  \<open>CxReferenceError\<close> carrying that reason. From then on, whatever happens to the
  definition (calls, changes of the asset list, further attempts to cut the supply off),
  \<open>assign\<close> and \<open>assignDefault\<close> fail with that error and hand nothing to the assigner.
\<close>

theorem cxDynamic_unavailable_after_off:
  "supply_isOff c = None \<Longrightarrow>
   (let c1 = target_supply_off reason c
    in getDefaultState c1 = Unavailable reason
       \<and> getState c1 = Unavailable reason
       \<and> getDefaultValue c1 = ValueUnavailable reason
       \<and> getValue c1 = ValueUnavailable reason
       \<and> getAssign c1 = AssignUnavailable reason
       \<and> fst (call_state_getter (getState c1) c1) = Inl (CxReferenceError reason)
       \<and> fst (call_state_getter (getDefaultState c1) c1) = Inl (CxReferenceError reason)
       \<and> fst (call_value_getter opts (getValue c1) c1) = Inl (CxReferenceError reason)
       \<and> fst (call_value_getter opts (getDefaultValue c1) c1) = Inl (CxReferenceError reason)
       \<and> fst (call_getAssign opts list c1) = Inl (CxReferenceError reason)
       \<and> (\<forall>events list'.
             fst (assign opts list' (run opts events c1)) = Inl (CxReferenceError reason)
             \<and> fst (assignDefault opts list' (run opts events c1)) = Inl (CxReferenceError reason)))"
proof -
  assume alive: "supply_isOff c = None"
  note f = target_supply_off_fields[OF alive, of reason]
  let ?c1 = "target_supply_off reason c"
  have later: "\<forall>events list'.
             fst (assign opts list' (run opts events ?c1)) = Inl (CxReferenceError reason)
             \<and> fst (assignDefault opts list' (run opts events ?c1)) = Inl (CxReferenceError reason)"
  proof (intro allI)
    fix events list'
    from f have a: "getAssign ?c1 = AssignUnavailable reason" and s: "supply_isOff ?c1 = Some reason"
      by simp_all
    from run_keeps_unavailable[OF a s, of opts events]
    have "getAssign (run opts events ?c1) = AssignUnavailable reason" by simp
    then show "fst (assign opts list' (run opts events ?c1)) = Inl (CxReferenceError reason)
             \<and> fst (assignDefault opts list' (run opts events ?c1)) = Inl (CxReferenceError reason)"
      by (simp add: assign_def assignDefault_def assign_with_unavailable)
  qed
  from f have direct: "fst (call_state_getter (getState ?c1) ?c1) = Inl (CxReferenceError reason)"
    "fst (call_state_getter (getDefaultState ?c1) ?c1) = Inl (CxReferenceError reason)"
    "fst (call_value_getter opts (getValue ?c1) ?c1) = Inl (CxReferenceError reason)"
    "fst (call_value_getter opts (getDefaultValue ?c1) ?c1) = Inl (CxReferenceError reason)"
    "fst (call_getAssign opts list ?c1) = Inl (CxReferenceError reason)"
    by (simp_all add: call_state_getter_def call_value_getter_def call_getAssign_def)
  from f later direct show ?thesis unfolding Let_def by blast
qed

theorem cxDynamic_unavailable_after_off_witness:
  "(let c = snd (assign array_options [\<lparr>provided_supply = 0, provided_rank = 0, provided_eachAsset = [1::nat, 2]\<rparr>]
                 (cxDynamic array_options :: (nat, unit, string) cxDynamic_closure))
    in supply_isOff c = None
       \<and> getState c = Returns (AssetArray [1, 2])
       \<and> fst (assign array_options [] c) = Inr (Assigned (AssetArray [1, 2]) (Some Assets))
       \<and> fst (assign array_options [] (target_supply_off (Val ''destroyed'') c))
           = Inl (CxReferenceError (Val ''destroyed''))
       \<and> fst (assignDefault array_options [] (target_supply_off (Val ''destroyed'') c))
           = Inl (CxReferenceError (Val ''destroyed'')))"
proof -
  define c where "c = snd (assign array_options [\<lparr>provided_supply = 0, provided_rank = 0, provided_eachAsset = [1::nat, 2]\<rparr>]
                 (cxDynamic array_options :: (nat, unit, string) cxDynamic_closure))"
  have alive: "supply_isOff c = None" and st: "getState c = Returns (AssetArray [1, 2])"
    and v: "fst (assign array_options [] c) = Inr (Assigned (AssetArray [1, 2]) (Some Assets))"
    by (simp_all add: c_def assign_def assign_with_def call_getAssign_def track_receiver_def
        cxDynamic_def array_options_def hasDefault_def call_value_getter_def
        call_state_getter_def cxDynamic_create_def cxRecent_access_def Let_def)
  note t = cxDynamic_unavailable_after_off[OF alive, of "Val ''destroyed''" array_options "[]"]
  have r: "run array_options [] (target_supply_off (Val ''destroyed'') c) = target_supply_off (Val ''destroyed'') c"
    by (simp add: run_def)
  from t have "fst (assign array_options [] (run array_options [] (target_supply_off (Val ''destroyed'') c)))
           = Inl (CxReferenceError (Val ''destroyed''))
       \<and> fst (assignDefault array_options [] (run array_options [] (target_supply_off (Val ''destroyed'') c)))
           = Inl (CxReferenceError (Val ''destroyed''))"
    unfolding Let_def by blast
  with alive st v show ?thesis
    unfolding r c_def[symmetric] Let_def by simp
qed


section \<open>Dynamic entries and changes of the asset list\<close>

lemma call_state_getter_once:
  "byDefault_once c \<Longrightarrow> byDefault_once (snd (call_state_getter g c))"
  by (cases g; cases "byDefault_cell c") (simp_all add: call_state_getter_def byDefault_once_def)

lemma call_value_getter_once:
  "byDefault_once c \<Longrightarrow> byDefault_once (snd (call_value_getter opts g c))"
proof (cases g)
  case AccessDefaultState
  assume o: "byDefault_once c"
  obtain r c' where r: "call_state_getter (getDefaultState c) c = (r, c')"
    by (cases "call_state_getter (getDefaultState c) c")
  from call_state_getter_once[OF o, of "getDefaultState c"] r have "byDefault_once c'" by simp
  with AccessDefaultState r show ?thesis
    by (cases r) (simp_all add: call_value_getter_def)
next
  case AccessState
  assume o: "byDefault_once c"
  obtain r c' where r: "call_state_getter (getState c) c = (r, c')"
    by (cases "call_state_getter (getState c) c")
  from call_state_getter_once[OF o, of "getState c"] r have "byDefault_once c'" by simp
  with AccessState r show ?thesis
    by (cases r) (simp_all add: call_value_getter_def)
next
  case (ValueUnavailable x)
  assume "byDefault_once c"
  with ValueUnavailable show ?thesis by (simp add: call_value_getter_def)
qed

lemma track_receiver_once:
  "byDefault_once c \<Longrightarrow> byDefault_once (track_receiver opts list c)"
  by (simp add: track_receiver_def byDefault_once_def Let_def)

lemma call_getAssign_once:
  "byDefault_once c \<Longrightarrow> byDefault_once (snd (call_getAssign opts list c))"
proof -
  assume o: "byDefault_once c"
  from track_receiver_once[OF o, of opts list]
  have "byDefault_once ((track_receiver opts list c)\<lparr>tracking := True\<rparr>)"
    by (simp add: byDefault_once_def)
  with o show ?thesis
    by (cases "getAssign c") (simp_all add: call_getAssign_def)
qed

lemma assign_with_once:
  "byDefault_once c \<Longrightarrow> byDefault_once (snd (assign_with opts list b c))"
proof -
  assume o: "byDefault_once c"
  obtain r c' where r: "call_getAssign opts list c = (r, c')"
    by (cases "call_getAssign opts list c")
  from call_getAssign_once[OF o, of opts list] r have o': "byDefault_once c'" by simp
  note v = call_value_getter_once[OF o', of opts]
  show ?thesis
  proof (cases r)
    case (Inl e)
    with r o' show ?thesis by (simp add: assign_with_def)
  next
    case (Inr u)
    obtain r1 c1 where r1: "call_value_getter opts (getDefaultValue c') c' = (r1, c1)"
      by (cases "call_value_getter opts (getDefaultValue c') c'")
    obtain r2 c2 where r2: "call_value_getter opts (getValue c') c' = (r2, c2)"
      by (cases "call_value_getter opts (getValue c') c'")
    from v[of "getDefaultValue c'"] r1 have o1: "byDefault_once c1" by simp
    from v[of "getValue c'"] r2 have o2: "byDefault_once c2" by simp
    from Inr r r1 r2 o' o1 o2 show ?thesis
      by (cases r1; cases r2) (simp_all add: assign_with_def)
  qed
qed

lemma target_supply_off_once:
  "byDefault_once c \<Longrightarrow> byDefault_once (target_supply_off reason c)"
  by (cases "supply_isOff c")
    (simp_all add: target_supply_off_def whenOff_receiver_def byDefault_once_def)

lemma step_once: "byDefault_once c \<Longrightarrow> byDefault_once (step opts c e)"
  by (cases e)
    (simp_all add: assign_def assignDefault_def assign_with_once track_receiver_once
      target_supply_off_once)

lemma run_once: "byDefault_once c \<Longrightarrow> byDefault_once (run opts events c)"
proof (induction events arbitrary: c)
  case Nil
  then show ?case by (simp add: run_def)
next
  case (Cons e events)
  from Cons.IH[OF step_once[OF Cons.prems, of opts e]] show ?case by (simp add: run_def)
qed

lemma cxDynamic_once: "byDefault_once (cxDynamic opts)"
  by (simp add: byDefault_once_def cxDynamic_def)

lemma byDefault_once_bound: "byDefault_once c \<Longrightarrow> byDefault_calls c \<le> 1"
  by (cases "byDefault_cell c") (simp_all add: byDefault_once_def)

lemma track_receiver_create:
  "create_calls (track_receiver opts list c) =
     create_calls c @ filter (\<lambda>assets. assets \<noteq> []) [concat (map provided_eachAsset list)]"
  by (simp add: track_receiver_def Let_def)

lemma track_receiver_tracking:
  "tracking (track_receiver opts list c) = tracking c"
  by (simp add: track_receiver_def Let_def)

lemma call_state_getter_frame:
  "create_calls (snd (call_state_getter g c)) = create_calls c
   \<and> tracking (snd (call_state_getter g c)) = tracking c"
  by (cases g; cases "byDefault_cell c") (simp_all add: call_state_getter_def)

lemma call_value_getter_frame:
  "create_calls (snd (call_value_getter opts g c)) = create_calls c
   \<and> tracking (snd (call_value_getter opts g c)) = tracking c"
proof (cases g)
  case AccessDefaultState
  obtain r c' where r: "call_state_getter (getDefaultState c) c = (r, c')"
    by (cases "call_state_getter (getDefaultState c) c")
  from call_state_getter_frame[of "getDefaultState c" c] r
  have "create_calls c' = create_calls c \<and> tracking c' = tracking c" by simp
  with AccessDefaultState r show ?thesis
    by (cases r) (simp_all add: call_value_getter_def)
next
  case AccessState
  obtain r c' where r: "call_state_getter (getState c) c = (r, c')"
    by (cases "call_state_getter (getState c) c")
  from call_state_getter_frame[of "getState c" c] r
  have "create_calls c' = create_calls c \<and> tracking c' = tracking c" by simp
  with AccessState r show ?thesis
    by (cases r) (simp_all add: call_value_getter_def)
next
  case (ValueUnavailable x)
  then show ?thesis by (simp add: call_value_getter_def)
qed

lemma assign_with_first:
  "getAssign c = LazyAssign \<Longrightarrow> \<not> tracking c \<Longrightarrow>
   create_calls (snd (assign_with opts list b c)) = create_calls (track_receiver opts list c)
   \<and> tracking (snd (assign_with opts list b c))"
proof -
  assume a: "getAssign c = LazyAssign" and t: "\<not> tracking c"
  let ?ct = "(track_receiver opts list c)\<lparr>tracking := True\<rparr>"
  have g: "call_getAssign opts list c = (Inr (), ?ct)"
    using a t by (simp add: call_getAssign_def)
  obtain r1 c1 where r1: "call_value_getter opts (getDefaultValue ?ct) ?ct = (r1, c1)"
    by (cases "call_value_getter opts (getDefaultValue ?ct) ?ct")
  obtain r2 c2 where r2: "call_value_getter opts (getValue ?ct) ?ct = (r2, c2)"
    by (cases "call_value_getter opts (getValue ?ct) ?ct")
  from call_value_getter_frame[of opts "getDefaultValue ?ct" ?ct] r1
  have f1: "create_calls c1 = create_calls (track_receiver opts list c)" "tracking c1"
    by simp_all
  from call_value_getter_frame[of opts "getValue ?ct" ?ct] r2
  have f2: "create_calls c2 = create_calls (track_receiver opts list c)" "tracking c2"
    by simp_all
  show ?thesis
    unfolding assign_with_def g using r1 r2 f1 f2
    by (cases r1; cases r2) simp_all
qed

lemma run_ListChanged_create:
  "tracking c \<Longrightarrow>
   tracking (run opts (map ListChanged changes) c)
   \<and> create_calls (run opts (map ListChanged changes) c) =
     create_calls c @
       filter (\<lambda>assets. assets \<noteq> []) (map (\<lambda>list. concat (map provided_eachAsset list)) changes)"
proof (induction changes arbitrary: c)
  case Nil
  then show ?case by (simp add: run_def)
next
  case (Cons l changes)
  let ?c = "track_receiver opts l c"
  have t: "tracking ?c" using Cons.prems by (simp add: track_receiver_tracking)
  have r: "run opts (map ListChanged (l # changes)) c = run opts (map ListChanged changes) ?c"
    using Cons.prems by (simp add: run_def)
  from Cons.IH[OF t] show ?case
    unfolding r by (simp add: track_receiver_create)
qed

lemma run_create_calls_from:
  "c = cxDynamic opts \<Longrightarrow>
   create_calls (run opts (CallAssign list0 # map ListChanged changes) c) =
       filter (\<lambda>assets. assets \<noteq> [])
         (map (\<lambda>list. concat (map provided_eachAsset list)) (list0 # changes))"
proof -
  assume c: "c = cxDynamic opts"
  then have "getAssign c = LazyAssign" "\<not> tracking c" "create_calls c = []"
    by (simp_all add: cxDynamic_def)
  from assign_with_first[OF this(1,2), of opts list0 False] this(3)
  have c1: "tracking (step opts c (CallAssign list0))"
    "create_calls (step opts c (CallAssign list0)) =
     filter (\<lambda>assets. assets \<noteq> []) [concat (map provided_eachAsset list0)]"
    by (simp_all add: assign_def track_receiver_create)
  have r: "run opts (CallAssign list0 # map ListChanged changes) c =
      run opts (map ListChanged changes) (step opts c (CallAssign list0))"
    by (simp add: run_def)
  from run_ListChanged_create[OF c1(1), of opts changes] c1(2)
  show ?thesis unfolding r by simp
qed

lemma run_create_calls:
  "create_calls (run opts (CallAssign list0 # map ListChanged changes) (cxDynamic opts)) =
       filter (\<lambda>assets. assets \<noteq> [])
         (map (\<lambda>list. concat (map provided_eachAsset list)) (list0 # changes))"
  by (rule run_create_calls_from[OF refl])

text \<open>
  Claim C4. While the receiver is registered with \<open>trackAssetList\<close>, every report of the
  asset list invokes \<open>create\<close> once more, with all assets of the reported list, exactly
  when the reported list has at least one asset; with no asset the entry switches to the
  default state and \<open>create\<close> is not invoked. So after the first \<open>assign\<close> and any series of
  changes, the arguments of the invocations of \<open>create\<close> are the non-empty ones among the
  full asset lists reported, in order. Whatever happens to a definition, \<open>byDefault\<close> is
  invoked at most once.
\<close>

theorem cxDynamic_create_on_every_change:
  "(tracking c \<longrightarrow>
      (let assets = concat (map provided_eachAsset list);
           c' = step opts c (ListChanged list)
       in (assets \<noteq> [] \<longrightarrow>
             create_calls c' = create_calls c @ [assets]
             \<and> getState c' = Returns (case create opts of
                                         Some f \<Rightarrow> UserState (f assets)
                                       | None \<Rightarrow> cxDynamic_create assets)
             \<and> cx_method c' = Some Assets)
          \<and> (assets = [] \<longrightarrow>
             create_calls c' = create_calls c
             \<and> getState c' = getDefaultState c
             \<and> cx_method c' = Some Defaults)))
   \<and> create_calls (run opts (CallAssign list0 # map ListChanged changes) (cxDynamic opts)) =
       filter (\<lambda>assets. assets \<noteq> [])
         (map (\<lambda>list. concat (map provided_eachAsset list)) (list0 # changes))
   \<and> byDefault_calls (run opts events (cxDynamic opts)) \<le> 1"
proof (intro conjI impI)
  assume "tracking c"
  then show "let assets = concat (map provided_eachAsset list);
           c' = step opts c (ListChanged list)
       in (assets \<noteq> [] \<longrightarrow>
             create_calls c' = create_calls c @ [assets]
             \<and> getState c' = Returns (case create opts of
                                         Some f \<Rightarrow> UserState (f assets)
                                       | None \<Rightarrow> cxDynamic_create assets)
             \<and> cx_method c' = Some Assets)
          \<and> (assets = [] \<longrightarrow>
             create_calls c' = create_calls c
             \<and> getState c' = getDefaultState c
             \<and> cx_method c' = Some Defaults)"
    by (simp add: track_receiver_def Let_def)
next
  show "create_calls (run opts (CallAssign list0 # map ListChanged changes) (cxDynamic opts)) =
       filter (\<lambda>assets. assets \<noteq> [])
         (map (\<lambda>list. concat (map provided_eachAsset list)) (list0 # changes))"
    by (rule run_create_calls)
next
  show "byDefault_calls (run opts events (cxDynamic opts)) \<le> 1"
    by (rule byDefault_once_bound[OF run_once[OF cxDynamic_once]])
qed

theorem cxDynamic_create_on_every_change_witness:
  "(let p = (\<lambda>xs. \<lparr>provided_supply = 0, provided_rank = 0, provided_eachAsset = xs\<rparr>);
        opts = \<lparr>create = Some (\<lambda>assets. sum_list assets), byDefault = Some (UserState (0::nat)),
                access = (\<lambda>s. s)\<rparr>;
        c = run opts [CallAssign [p [1::nat]], ListChanged [p [1], p [2, 3]], ListChanged [p []],
                      CallAssignDefault [], CallAssign [], CallAssignDefault [],
                      ListChanged [p [2, 3]]]
              (cxDynamic opts :: (nat, nat, string) cxDynamic_closure)
    in create_calls c = [[1], [1, 2, 3], [2, 3]] \<and> byDefault_calls c = 1
       \<and> getState c = Returns (UserState 5))"
proof -
  define p where "p = (\<lambda>xs :: nat list. \<lparr>provided_supply = 0, provided_rank = 0, provided_eachAsset = xs\<rparr>)"
  define opts where "opts = \<lparr>create = Some (\<lambda>assets :: nat list. sum_list assets), byDefault = Some (UserState (0::nat)),
                access = (\<lambda>s :: (nat, nat) tstate. s)\<rparr>"
  define evs :: "(nat, string) event list" where "evs = [CallAssign [p [1::nat]], ListChanged [p [1], p [2, 3]], ListChanged [p []],
                      CallAssignDefault [], CallAssign [], CallAssignDefault [],
                      ListChanged [p [2, 3]]]"
  define c where "c = run opts evs (cxDynamic opts :: (nat, nat, string) cxDynamic_closure)"
  have ev: "create_calls c = [[1], [1, 2, 3], [2, 3]] \<and> byDefault_calls c = 1
       \<and> getState c = Returns (UserState 5)"
    by (simp add: c_def evs_def run_def opts_def p_def assign_def assignDefault_def assign_with_def
        call_getAssign_def track_receiver_def cxDynamic_def hasDefault_def call_value_getter_def
        call_state_getter_def Let_def)
  have tr: "tracking (run opts [CallAssign [p [1::nat]]] (cxDynamic opts :: (nat, nat, string) cxDynamic_closure))"
    by (simp add: run_def opts_def p_def assign_def assign_with_def
        call_getAssign_def track_receiver_def cxDynamic_def hasDefault_def call_value_getter_def
        call_state_getter_def Let_def)
  note t = cxDynamic_create_on_every_change[where opts = opts and events = evs
      and c = "run opts [CallAssign [p [1::nat]]] (cxDynamic opts :: (nat, nat, string) cxDynamic_closure)"
      and list = "[p [1], p [2, 3]]" and ?list0.0 = "[]" and changes = "[]"]
  from t have "byDefault_calls c \<le> 1" unfolding c_def by blast
  with ev show ?thesis
    unfolding Let_def c_def evs_def opts_def p_def by simp
qed

section \<open>Array-valued entries\<close>

lemma present_values_append:
  "present_values (xs @ ys) = present_values xs @ present_values ys"
  by (induction xs rule: present_values.induct) simp_all

lemma present_values_concat:
  "present_values (concat xss) = concat (map present_values xss)"
  by (induction xss) (simp_all add: present_values_append)

lemma present_values_filter: "present_values (filter is_present vs) = present_values vs"
  by (induction vs rule: present_values.induct) simp_all

lemma track_flatten:
  "concat (map provided_eachAsset (trackAssetList r)) = present_values (target_eachAsset r)"
  by (simp add: trackAssetList_def target_eachAsset_def present_values_concat comp_def
      case_prod_beta)

lemma bucket_provide_all:
  "map snd (bucket (provide_all as r)) = map snd (bucket r) @ as"
proof (induction as arbitrary: r)
  case Nil
  then show ?case by (simp add: provide_all_def)
next
  case (Cons a as)
  have "provide_all (a # as) r = provide_all as (snd (provide a r))"
    by (simp add: provide_all_def)
  with Cons.IH[of "snd (provide a r)"] show ?case
    by (simp add: provide_def)
qed

lemma target_eachAsset_snd:
  "target_eachAsset r = concat (map placeAsset (map snd (bucket r)))"
  by (simp add: target_eachAsset_def comp_def case_prod_unfold)

lemma const_assets_placed:
  "concat (map (placeAsset \<circ> cxConstAsset) vs) = filter is_present vs"
  by (induction vs) (simp_all add: cxConstAsset_def CxAsset_provideNone_def)

lemma const_assets_registered:
  "present_values (target_eachAsset (provide_all (map cxConstAsset vs) empty_registry)) =
     present_values vs"
  by (simp add: target_eachAsset_snd bucket_provide_all empty_registry_def const_assets_placed
      present_values_filter)

lemma resolve_array_value:
  "resolve_array r =
     Inr (Assigned (AssetArray (present_values (target_eachAsset r)))
            (Some (if present_values (target_eachAsset r) = [] then Defaults else Assets)))"
  by (simp add: resolve_array_def assign_def assign_with_def call_getAssign_def
      track_receiver_def track_flatten cxDynamic_def array_options_def hasDefault_def
      call_value_getter_def call_state_getter_def cxDynamic_create_def cxDynamic_byDefault_def
      cxRecent_access_def Let_def)

lemma const_assets_eachAsset:
  "target_eachAsset (provide_all (map cxConstAsset vs) empty_registry) = filter is_present vs"
  by (simp add: target_eachAsset_snd bucket_provide_all empty_registry_def const_assets_placed)

lemma const_assets_tracked:
  "map provided_eachAsset (trackAssetList (provide_all (map cxConstAsset vs) empty_registry)) =
     map (\<lambda>v. present_values [v]) vs"
proof -
  have t: "map provided_eachAsset (trackAssetList r) =
        map (\<lambda>a. present_values (placeAsset a)) (map snd (bucket r))" for r :: "'a registry"
    by (simp add: trackAssetList_def comp_def case_prod_unfold)
  have p: "present_values (placeAsset (cxConstAsset v)) = present_values [v]"
    for v :: "'a jsval"
    by (cases v) (simp_all add: cxConstAsset_def CxAsset_provideNone_def)
  show ?thesis
    unfolding t bucket_provide_all by (simp add: empty_registry_def comp_def p)
qed

lemma seed_iterate_values:
  "fst (seed_iterate ctx (iterativeSeed ps)) = present_values (map (\<lambda>p. p ctx 0) ps)"
proof -
  obtain vs es where r: "seed_take (length (iterativeSeed ps)) ctx (iterativeSeed ps) = (vs, es)"
    by (cases "seed_take (length (iterativeSeed ps)) ctx (iterativeSeed ps)")
  have l: "length (present_values (map (\<lambda>p. p ctx 0) ps)) \<le> length (iterativeSeed ps)"
    using length_present_values[of "map (\<lambda>p. p ctx 0) ps"] by (simp add: iterativeSeed_def)
  from seed_take_cached[OF iterativeSeed_cached r]
  have "vs = take (length (iterativeSeed ps)) (present_values (map (\<lambda>p. p ctx 0) ps))"
    by (simp add: iterativeSeed_providers)
  with l show ?thesis by (simp add: seed_iterate_def r)
qed

text \<open>
  Claim C5. For an array-valued entry, with the assets \<open>a\<close>, \<open>null\<close> (or \<open>undefined\<close>),
  \<open>c\<close> registered in that order, resolution yields the sequence \<open>[a, c]\<close>. In general the
  result is the sequence of the registered values other than \<open>null\<close>/\<open>undefined\<close>, in
  registration order: such assets are skipped and the order of the others is kept. This
  holds for \<open>cxDynamic()\<close> over constant assets and for the seed built by \<open>iterativeSeed\<close>.
  A constant asset with a value hands exactly that value to the collector, one without a
  value hands nothing, so the evaluators the target offers are those of the assets with a
  value, in registration order, and the list element of an asset without a value reports
  no asset.
\<close>

theorem multi_collects_in_order:
  "resolve_array (provide_all [cxConstAsset (Val a), cxConstAsset Null, cxConstAsset (Val c)]
       empty_registry) = Inr (Assigned (AssetArray [a, c]) (Some Assets))
   \<and> resolve_array (provide_all [cxConstAsset (Val a), cxConstAsset Undefined, cxConstAsset (Val c)]
       empty_registry) = Inr (Assigned (AssetArray [a, c]) (Some Assets))
   \<and> resolve_array (provide_all (map cxConstAsset vs) empty_registry) =
       Inr (Assigned (AssetArray (present_values vs))
              (Some (if present_values vs = [] then Defaults else Assets)))
   \<and> fst (seed_iterate ctx (iterativeSeed [\<lambda>_ _. Val a, \<lambda>_ _. Null, \<lambda>_ _. Val c])) = [a, c]
   \<and> fst (seed_iterate ctx (iterativeSeed [\<lambda>_ _. Val a, \<lambda>_ _. Undefined, \<lambda>_ _. Val c])) = [a, c]
   \<and> fst (seed_iterate ctx (iterativeSeed providers)) =
       present_values (map (\<lambda>p. p ctx 0) providers)
   \<and> placeAsset (cxConstAsset (Val a)) = [Val a]
   \<and> placeAsset (cxConstAsset Null) = ([] :: 'a jsval list)
   \<and> placeAsset (cxConstAsset Undefined) = ([] :: 'a jsval list)
   \<and> target_eachAsset (provide_all [cxConstAsset (Val a), cxConstAsset Null, cxConstAsset (Val c)]
       empty_registry) = [Val a, Val c]
   \<and> target_eachAsset (provide_all (map cxConstAsset vs) empty_registry) = filter is_present vs
   \<and> map provided_eachAsset (trackAssetList (provide_all (map cxConstAsset vs) empty_registry)) =
       map (\<lambda>v. present_values [v]) vs"
proof (intro conjI)
  show "resolve_array (provide_all [cxConstAsset (Val a), cxConstAsset Null, cxConstAsset (Val c)]
       empty_registry) = Inr (Assigned (AssetArray [a, c]) (Some Assets))"
    using const_assets_registered[of "[Val a, Null, Val c]"]
    by (simp add: resolve_array_value)
  show "resolve_array (provide_all [cxConstAsset (Val a), cxConstAsset Undefined, cxConstAsset (Val c)]
       empty_registry) = Inr (Assigned (AssetArray [a, c]) (Some Assets))"
    using const_assets_registered[of "[Val a, Undefined, Val c]"]
    by (simp add: resolve_array_value)
  show "resolve_array (provide_all (map cxConstAsset vs) empty_registry) =
       Inr (Assigned (AssetArray (present_values vs))
              (Some (if present_values vs = [] then Defaults else Assets)))"
    by (simp only: resolve_array_value const_assets_registered)
  show "fst (seed_iterate ctx (iterativeSeed [\<lambda>_ _. Val a, \<lambda>_ _. Null, \<lambda>_ _. Val c])) = [a, c]"
    by (simp add: seed_iterate_values)
  show "fst (seed_iterate ctx (iterativeSeed [\<lambda>_ _. Val a, \<lambda>_ _. Undefined, \<lambda>_ _. Val c])) = [a, c]"
    by (simp add: seed_iterate_values)
  show "fst (seed_iterate ctx (iterativeSeed providers)) =
       present_values (map (\<lambda>p. p ctx 0) providers)"
    by (rule seed_iterate_values)
  show "placeAsset (cxConstAsset (Val a)) = [Val a]"
    by (simp add: cxConstAsset_def)
  show "placeAsset (cxConstAsset Null) = ([] :: 'a jsval list)"
    by (simp add: cxConstAsset_def CxAsset_provideNone_def)
  show "placeAsset (cxConstAsset Undefined) = ([] :: 'a jsval list)"
    by (simp add: cxConstAsset_def CxAsset_provideNone_def)
  show "target_eachAsset (provide_all [cxConstAsset (Val a), cxConstAsset Null, cxConstAsset (Val c)]
       empty_registry) = [Val a, Val c]"
    using const_assets_eachAsset[of "[Val a, Null, Val c]"] by simp
  show "target_eachAsset (provide_all (map cxConstAsset vs) empty_registry) = filter is_present vs"
    by (rule const_assets_eachAsset)
  show "map provided_eachAsset (trackAssetList (provide_all (map cxConstAsset vs) empty_registry)) =
       map (\<lambda>v. present_values [v]) vs"
    by (rule const_assets_tracked)
qed

theorem multi_collects_in_order_witness:
  "resolve_array (provide_all (map cxConstAsset [Val ''a'', Undefined, Val ''c'', Null, Val ''e''])
       empty_registry)
     = Inr (Assigned (AssetArray [''a'', ''c'', ''e'']) (Some Assets))
   \<and> fst (seed_iterate () (iterativeSeed [\<lambda>_ _. Val ''a'', \<lambda>_ _. Undefined, \<lambda>_ _. Val ''c'']))
       = [''a'', ''c'']
   \<and> target_eachAsset (provide_all (map cxConstAsset [Val ''a'', Undefined, Val ''c'', Null, Val ''e''])
       empty_registry) = [Val ''a'', Val ''c'', Val ''e'']"
proof -
  note t = multi_collects_in_order[where vs = "[Val ''a'', Undefined, Val ''c'', Null, Val ''e'']"
      and a = "''a''" and c = "''c''" and ctx = "()" and providers = "[]"]
  from t have a: "resolve_array (provide_all (map cxConstAsset [Val ''a'', Undefined, Val ''c'', Null, Val ''e''])
       empty_registry)
     = Inr (Assigned (AssetArray (present_values [Val ''a'', Undefined, Val ''c'', Null, Val ''e'']))
              (Some (if present_values [Val ''a'', Undefined, Val ''c'', Null, Val ''e''] = []
                     then Defaults else Assets)))"
    by (rule conjunct1[OF conjunct2[OF conjunct2]])
  from t have b: "fst (seed_iterate () (iterativeSeed [\<lambda>_ _. Val ''a'', \<lambda>_ _. Undefined, \<lambda>_ _. Val ''c'']))
       = [''a'', ''c'']"
    by (rule conjunct1[OF conjunct2[OF conjunct2[OF conjunct2[OF conjunct2]]]])
  have e: "target_eachAsset (provide_all (map cxConstAsset [Val ''a'', Undefined, Val ''c'', Null, Val ''e''])
       empty_registry) = filter is_present [Val ''a'', Undefined, Val ''c'', Null, Val ''e'']"
    by (rule t[THEN conjunct2, THEN conjunct2, THEN conjunct2, THEN conjunct2, THEN conjunct2,
          THEN conjunct2, THEN conjunct2, THEN conjunct2, THEN conjunct2, THEN conjunct2,
          THEN conjunct1])
  show ?thesis
  proof (intro conjI)
    show "resolve_array (provide_all (map cxConstAsset [Val ''a'', Undefined, Val ''c'', Null, Val ''e''])
       empty_registry) = Inr (Assigned (AssetArray [''a'', ''c'', ''e'']) (Some Assets))"
      unfolding a by simp
    show "fst (seed_iterate () (iterativeSeed [\<lambda>_ _. Val ''a'', \<lambda>_ _. Undefined, \<lambda>_ _. Val ''c'']))
       = [''a'', ''c'']"
      by (rule b)
    show "target_eachAsset (provide_all (map cxConstAsset [Val ''a'', Undefined, Val ''c'', Null, Val ''e''])
       empty_registry) = [Val ''a'', Val ''c'', Val ''e'']"
      unfolding e by simp
  qed
qed

section \<open>Constant assets without a value\<close>

lemma track_receiver_cong:
  "concat (map provided_eachAsset l1) = concat (map provided_eachAsset l2) \<Longrightarrow>
   track_receiver opts l1 c = track_receiver opts l2 c"
  by (simp add: track_receiver_def)

lemma assign_with_cong:
  "concat (map provided_eachAsset l1) = concat (map provided_eachAsset l2) \<Longrightarrow>
   assign_with opts l1 b c = assign_with opts l2 b c"
proof -
  assume "concat (map provided_eachAsset l1) = concat (map provided_eachAsset l2)"
  then have "track_receiver opts l1 c = track_receiver opts l2 c"
    by (rule track_receiver_cong)
  then have "call_getAssign opts l1 c = call_getAssign opts l2 c"
    by (cases "getAssign c") (simp_all add: call_getAssign_def)
  then show ?thesis by (simp add: assign_with_def)
qed

lemma absent_const_asset: "\<not> is_present v \<Longrightarrow> placeAsset (cxConstAsset v) = []"
  by (simp add: cxConstAsset_def CxAsset_provideNone_def)

text \<open>
  Claim C10. \<open>cxConstAsset\<close> with \<open>null\<close> or \<open>undefined\<close> gives an asset whose placement
  function never calls the collector. A registry with such an asset registered anywhere
  offers the same evaluators as the registry without it, so the single-valued and the
  array-valued resolution are the same, and so is the effect of every call of \<open>assign\<close> and
  \<open>assignDefault\<close> and of every report of the asset list, for any options of \<open>cxDynamic\<close>.
\<close>

theorem absent_const_asset_contributes_nothing:
  "\<not> is_present v \<Longrightarrow> bucket r' = xs @ (s, cxConstAsset v) # ys \<Longrightarrow> bucket r = xs @ ys \<Longrightarrow>
   placeAsset (cxConstAsset v) = []
   \<and> target_eachAsset r' = target_eachAsset r
   \<and> target_eachAsset (snd (provide (cxConstAsset v) r)) = target_eachAsset r
   \<and> resolve_single r' = resolve_single r
   \<and> resolve_single (snd (provide (cxConstAsset v) r)) = resolve_single r
   \<and> resolve_array r' = resolve_array r
   \<and> resolve_array (snd (provide (cxConstAsset v) r)) = resolve_array r
   \<and> assign opts (trackAssetList r') c = assign opts (trackAssetList r) c
   \<and> assignDefault opts (trackAssetList r') c = assignDefault opts (trackAssetList r) c
   \<and> step opts c (ListChanged (trackAssetList r')) = step opts c (ListChanged (trackAssetList r))"
proof -
  assume v: "\<not> is_present v" and r': "bucket r' = xs @ (s, cxConstAsset v) # ys"
    and r: "bucket r = xs @ ys"
  note p = absent_const_asset[OF v]
  have e: "target_eachAsset r' = target_eachAsset r"
    by (simp add: target_eachAsset_def r r' p)
  have e2: "target_eachAsset (snd (provide (cxConstAsset v) r)) = target_eachAsset r"
    by (simp add: target_eachAsset_def provide_def p)
  have f: "concat (map provided_eachAsset (trackAssetList r')) =
           concat (map provided_eachAsset (trackAssetList r))"
    by (simp only: track_flatten e)
  have s1: "resolve_single r' = resolve_single r"
    by (simp only: resolve_single_def e)
  have s2: "resolve_single (snd (provide (cxConstAsset v) r)) = resolve_single r"
    by (simp only: resolve_single_def e2)
  have a1: "resolve_array r' = resolve_array r"
    by (simp only: resolve_array_value e)
  have a2: "resolve_array (snd (provide (cxConstAsset v) r)) = resolve_array r"
    by (simp only: resolve_array_value e2)
  have d1: "assign opts (trackAssetList r') c = assign opts (trackAssetList r) c"
    unfolding assign_def by (rule assign_with_cong[OF f])
  have d2: "assignDefault opts (trackAssetList r') c = assignDefault opts (trackAssetList r) c"
    unfolding assignDefault_def by (rule assign_with_cong[OF f])
  have d3: "step opts c (ListChanged (trackAssetList r')) = step opts c (ListChanged (trackAssetList r))"
    by (simp add: track_receiver_cong[OF f])
  from p e e2 s1 s2 a1 a2 d1 d2 d3 show ?thesis by blast
qed

theorem absent_const_asset_contributes_nothing_witness:
  "(let r = \<lparr>next_supply = 3,
              bucket = [(0, cxConstAsset (Val ''a''))] @ [(2, cxConstAsset (Val ''b''))]\<rparr>;
        r' = \<lparr>next_supply = 3,
               bucket = [(0, cxConstAsset (Val ''a''))] @ (1, cxConstAsset Null) #
                        [(2, cxConstAsset (Val ''b''))]\<rparr>
    in resolve_single r' = resolve_single r \<and> resolve_single r = Val ''b''
       \<and> resolve_array r' = resolve_array r
       \<and> resolve_array r = Inr (Assigned (AssetArray [''a'', ''b'']) (Some Assets)))"
proof -
  define r :: "string registry" where
    "r = \<lparr>next_supply = 3,
              bucket = [(0, cxConstAsset (Val ''a''))] @ [(2, cxConstAsset (Val ''b''))]\<rparr>"
  define r' :: "string registry" where
    "r' = \<lparr>next_supply = 3,
               bucket = [(0, cxConstAsset (Val ''a''))] @ (1, cxConstAsset Null) #
                        [(2, cxConstAsset (Val ''b''))]\<rparr>"
  have b: "bucket r = [(0, cxConstAsset (Val ''a''))] @ [(2, cxConstAsset (Val ''b''))]"
    by (simp add: r_def)
  have b': "bucket r' = [(0, cxConstAsset (Val ''a''))] @ (1, cxConstAsset Null) # [(2, cxConstAsset (Val ''b''))]"
    by (simp add: r'_def)
  have n: "\<not> is_present (Null :: string jsval)" by simp
  note t = absent_const_asset_contributes_nothing[OF n b' b, of array_options "cxDynamic array_options"]
  from t have same: "resolve_single r' = resolve_single r" "resolve_array r' = resolve_array r"
    by blast+
  have v: "resolve_single r = Val ''b''"
    "resolve_array r = Inr (Assigned (AssetArray [''a'', ''b'']) (Some Assets))"
    by (simp_all add: resolve_single_def resolve_array_value target_eachAsset_def r_def
        cxConstAsset_def cxSingle_get_fresh cxSingle_compute_value)
  from same v show ?thesis unfolding Let_def r_def[symmetric] r'_def[symmetric] by blast
qed

section \<open>The default of array-valued entries\<close>





section \<open>Fallbacks of the reactive single-value key\<close>

text \<open>
  Claim C6. For \<open>SingleContextUpKey\<close>, when there is no source and the slot has a fallback
  that is \<open>null\<close> or \<open>undefined\<close> (a request with \<open>or: null\<close> or \<open>or: undefined\<close>), the value
  is the keeper that throws \<open>ContextKeyError\<close>, whatever the default of the key is: the
  default is not consulted. With no fallback in the request a truthy default is used,
  and a fallback that is a keeper is used as it is.
\<close>

theorem grow_rejects_absent_fallback:
  "(hasFallback slot \<and> \<not> is_present (or slot) \<longrightarrow>
      grow truthy dflt slot [] = Keeper (AfterEventBy_throw ContextKeyError)
      \<and> readValue (grow truthy dflt slot []) = Inl ContextKeyError)
   \<and> readValue (grow truthy dflt (slot_of_request (Some Null)) []) = Inl ContextKeyError
   \<and> readValue (grow truthy dflt (slot_of_request (Some Undefined)) []) = Inl ContextKeyError
   \<and> (truthy d \<longrightarrow> readValue (grow truthy (Val d) (slot_of_request None) []) = Inr d)
   \<and> readValue (grow truthy dflt (slot_of_request (Some (Val (AfterThe f)))) []) = Inr f"
proof (intro conjI impI)
  assume "hasFallback slot \<and> \<not> is_present (or slot)"
  then show "grow truthy dflt slot [] = Keeper (AfterEventBy_throw ContextKeyError)"
    by (cases "or slot") (simp_all add: grow_def)
  then show "readValue (grow truthy dflt slot []) = Inl ContextKeyError" by simp
next
  show "readValue (grow truthy dflt (slot_of_request (Some Null)) []) = Inl ContextKeyError"
    by (simp add: grow_def slot_of_request_def)
next
  show "readValue (grow truthy dflt (slot_of_request (Some Undefined)) []) = Inl ContextKeyError"
    by (simp add: grow_def slot_of_request_def)
next
  assume "truthy d"
  then show "readValue (grow truthy (Val d) (slot_of_request None) []) = Inr d"
    by (simp add: grow_def slot_of_request_def)
next
  show "readValue (grow truthy dflt (slot_of_request (Some (Val (AfterThe f)))) []) = Inr f"
    by (simp add: grow_def slot_of_request_def)
qed

theorem grow_rejects_absent_fallback_witness:
  "readValue (grow (\<lambda>s. s \<noteq> []) (Val ''default'') \<lparr>hasFallback = True, or = Null\<rparr> [])
     = Inl ContextKeyError
   \<and> readValue (grow (\<lambda>s. s \<noteq> []) (Val ''default'') (slot_of_request (Some Undefined)) [])
     = Inl ContextKeyError
   \<and> readValue (grow (\<lambda>s. s \<noteq> []) (Val ''default'') (slot_of_request None) []) = Inr ''default''"
proof -
  note t = grow_rejects_absent_fallback[where slot = "\<lparr>hasFallback = True, or = Null\<rparr>"
      and truthy = "\<lambda>s :: string. s \<noteq> []" and dflt = "Val ''default''" and d = "''default''"
      and f = "''fallback''"]
  have h: "hasFallback \<lparr>hasFallback = True, or = (Null :: string after_event jsval)\<rparr>
           \<and> \<not> is_present (or \<lparr>hasFallback = True, or = (Null :: string after_event jsval)\<rparr>)"
    by simp
  have tr: "(\<lambda>s :: string. s \<noteq> []) ''default''" by simp
  from t h tr show ?thesis by blast
qed

section \<open>The order of resolution\<close>

text \<open>
  Claim C2. The accessor \<open>get(entry, request?)\<close> resolves in this order: the result of the
  definition's \<open>get()\<close> if it is a value; else the fallback \<open>request.or\<close> if it was given and
  is a value; else the result of the definition's \<open>getDefault()\<close> if it is a value; else
  it fails with a \<open>CxReferenceError\<close>, or yields \<open>null\<close> when the nullable-returning
  overload is the one used.
\<close>

theorem accessor_get_order:
  "(def_get d = Some (Val v) \<longrightarrow> accessor_get ov d rq = Inr (Val v))
   \<and> (value_of (def_get d) = None \<longrightarrow>
        (rq = Some \<lparr>request_or = Some (Val f)\<rparr> \<longrightarrow> accessor_get ov d rq = Inr (Val f))
        \<and> (value_of (case rq of None \<Rightarrow> None | Some r \<Rightarrow> request_or r) = None \<longrightarrow>
             (def_getDefault d = Some (Val x) \<longrightarrow> accessor_get ov d rq = Inr (Val x))
             \<and> (value_of (def_getDefault d) = None \<longrightarrow>
                  accessor_get WithFallback d rq = Inl (CxReferenceError Undefined)
                  \<and> accessor_get Nullable d rq = Inr Null)))"
  by (simp add: accessor_get_def value_of_def)

theorem accessor_get_order_witness:
  "accessor_get WithFallback \<lparr>def_get = Some (Val ''v''), def_getDefault = Some (Val ''d'')\<rparr>
      (Some \<lparr>request_or = Some (Val ''f'')\<rparr>) = Inr (Val ''v'')
   \<and> accessor_get WithFallback \<lparr>def_get = Some Null, def_getDefault = Some (Val ''d'')\<rparr>
      (Some \<lparr>request_or = Some (Val ''f'')\<rparr>) = Inr (Val ''f'')
   \<and> accessor_get WithFallback \<lparr>def_get = Some Null, def_getDefault = Some (Val ''d'')\<rparr>
      (Some \<lparr>request_or = Some Null\<rparr>) = Inr (Val ''d'')
   \<and> accessor_get WithFallback \<lparr>def_get = None, def_getDefault = None\<rparr> None
      = (Inl (CxReferenceError Undefined) :: unit cx_error + string jsval)
   \<and> accessor_get Nullable \<lparr>def_get = None, def_getDefault = None\<rparr> None
      = (Inr Null :: unit cx_error + string jsval)"
proof -
  note t1 = accessor_get_order[where d = "\<lparr>def_get = Some (Val ''v''), def_getDefault = Some (Val ''d'')\<rparr>"
      and v = "''v''" and ov = WithFallback and rq = "Some \<lparr>request_or = Some (Val ''f'')\<rparr>"
      and f = "''f''" and x = "''d''"]
  note t2 = accessor_get_order[where d = "\<lparr>def_get = Some Null, def_getDefault = Some (Val ''d'')\<rparr>"
      and v = "''v''" and ov = WithFallback and rq = "Some \<lparr>request_or = Some (Val ''f'')\<rparr>"
      and f = "''f''" and x = "''d''"]
  note t3 = accessor_get_order[where d = "\<lparr>def_get = Some Null, def_getDefault = Some (Val ''d'')\<rparr>"
      and v = "''v''" and ov = WithFallback and rq = "Some \<lparr>request_or = Some Null\<rparr>"
      and f = "''f''" and x = "''d''"]
  note t4 = accessor_get_order[where d = "\<lparr>def_get = None, def_getDefault = None\<rparr> :: string entry_definition"
      and v = "''v''" and ov = WithFallback and rq = None
      and f = "''f''" and x = "''d''"]
  from t1 have a: "accessor_get WithFallback \<lparr>def_get = Some (Val ''v''), def_getDefault = Some (Val ''d'')\<rparr>
      (Some \<lparr>request_or = Some (Val ''f'')\<rparr>) = Inr (Val ''v'')"
    by simp
  from t2 have b: "accessor_get WithFallback \<lparr>def_get = Some Null, def_getDefault = Some (Val ''d'')\<rparr>
      (Some \<lparr>request_or = Some (Val ''f'')\<rparr>) = Inr (Val ''f'')"
    by (simp add: value_of_def)
  from t3 have c: "accessor_get WithFallback \<lparr>def_get = Some Null, def_getDefault = Some (Val ''d'')\<rparr>
      (Some \<lparr>request_or = Some Null\<rparr>) = Inr (Val ''d'')"
    by (simp add: value_of_def)
  from t4 have d: "accessor_get WithFallback \<lparr>def_get = None, def_getDefault = None\<rparr> None
      = (Inl (CxReferenceError Undefined) :: unit cx_error + string jsval)"
    "accessor_get Nullable \<lparr>def_get = None, def_getDefault = None\<rparr> None
      = (Inr Null :: unit cx_error + string jsval)"
    by (simp_all add: value_of_def)
  from a b c d show ?thesis by blast
qed

end
